theory Spec2Isabelle
  imports Main "HOL-Library.Word" "HOL-Library.Log_Nat" "HOL-Library.Sublist"
begin

unbundle bit_operations_syntax

section \<open>The operating system as seen from cgroup.c\<close>

text \<open>
  Every system call and every call of a helper that lives outside cgroup.c is a
  \<open>call\<close>; what it gives back is a \<open>resp\<close>.  The environment is any function from
  the history of calls so far and the next call to its response, so the kernel may
  answer each call differently each time (a busy directory, an entry that vanishes
  between two calls).  The program state holds that history, \<open>errno\<close>, the process-wide
  mount path cache of \<open>cg_ctl_map\<close>, the static slice name and the messages sent to the
  logging sink.
\<close>

datatype stat = Stat (st_dev: nat) (st_ino: nat) (S_ISDIR: bool)

datatype mnt_flag = MS_SLAVE | MS_BIND | MS_PRIVATE

datatype call =
    OpenDir string
  | OpenRd string
  | OpenWr string
  | OpenWrCloexec string
  | Read int nat
  | Write int string
  | Close int
  | Fstat int
  | Fdopendir int
  | Readdir int
  | Fstatat int string
  | Openat int string
  | Unlinkat int string
  | Usleep nat
  | Sleep nat
  | Rmdir string
  | MakeDir string
  | Access string
  | Mount "string option" "string option" "string option" "mnt_flag list"
  | Umount string
  | Symlink string string
  | Unlink string
  | ProcMounts
  | ProcCgroups
  | GetGlobalParam string
  | Xstrdup string
  | Malloc nat
  | AddStrParam string
  | Uninit

datatype resp = Resp (r_ret: int) (r_errno: int) (r_stat: stat) (r_data: string)
  (r_names: "string list") (r_pairs: "(string \<times> string) list")

type_synonym history = "(call \<times> resp) list"

type_synonym env = "history \<Rightarrow> call \<Rightarrow> resp"

record state =
  trace :: history
  errno :: int
  mount_path :: "nat \<Rightarrow> string option"
  slice :: "string option"
  logged :: "(int \<times> int \<times> string) list"

text \<open>errno.h (Linux).\<close>

definition ENOENT :: int where "ENOENT = 2"
definition ENOMEM :: int where "ENOMEM = 12"
definition EBUSY :: int where "EBUSY = 16"
definition EEXIST :: int where "EEXIST = 17"

text \<open>limits.h (Linux).\<close>

definition PATH_MAX :: nat where "PATH_MAX = 4096"

text \<open>
  A call is made: the environment answers, the call and its answer are appended to the
  history, and a call with a negative result sets \<open>errno\<close>.  \<open>r_ret\<close> is the value the C
  call returns; for a call that returns a pointer, NULL is a negative \<open>r_ret\<close>.
  \<open>Readdir\<close> stands for \<open>rewinddir\<close> and the \<open>readdir\<close> calls up to NULL: \<open>r_names\<close> is
  the finite sequence of \<open>d_name\<close>s the enumeration yields, in its order.  \<open>ProcMounts\<close>
  stands for reading /proc/mounts line by line: \<open>r_pairs\<close> holds, for each line on which
  \<open>sscanf(buf, "%*s %4095s cgroup %4095s", target, ops)\<close> fills both fields, the pair
  \<open>(target, ops)\<close>.  \<open>ProcCgroups\<close> stands for reading /proc/cgroups: \<open>r_names\<close> holds the
  first word of each line that has one.  \<open>Uninit\<close> is no call and leaves no mark in the
  history: its \<open>r_stat\<close> is the indeterminate content of a \<open>struct stat\<close> local that was
  never written.  The mutex around the mount path cache and \<open>debug()\<close> tracing are not
  modelled: the model is one thread.
\<close>

definition sys :: "env \<Rightarrow> call \<Rightarrow> state \<Rightarrow> resp \<times> state" where
  "sys env c s =
     (let r = env (trace s) c in
      (r, s\<lparr>trace := trace s @ [(c, r)],
             errno := (if r_ret r < 0 then r_errno r else errno s)\<rparr>))"

text \<open>
  logger.h: \<open>logger(level, errno, fmt, ...)\<close> sends one message to the sink;
  \<open>vzctl_err(rc, errno, fmt, ...)\<close> sends it at level -1 and returns \<open>rc\<close>.
\<close>

definition logger :: "int \<Rightarrow> int \<Rightarrow> string \<Rightarrow> state \<Rightarrow> state" where
  "logger lvl eno msg s = s\<lparr>logged := logged s @ [(lvl, eno, msg)]\<rparr>"

definition vzctl_err :: "int \<Rightarrow> int \<Rightarrow> string \<Rightarrow> state \<Rightarrow> int \<times> state" where
  "vzctl_err rc eno msg s = (rc, logger (- 1) eno msg s)"

section \<open>Tree removal\<close>

subsection \<open>rmdir_retry\<close>

text \<open>
  \<open>useconds_t\<close> is a 32-bit unsigned integer.  The do-while loop carries \<open>total\<close>
  and \<open>wait\<close>; it is entered with \<open>total = 0\<close> (written \<open>tot\<close>: \<open>total\<close> is a constant of HOL) and \<open>wait = 10000\<close>.
\<close>

definition maxwait :: "32 word" where "maxwait = 500000"
definition timeout :: "32 word" where "timeout = 30 * 1000000"

partial_function (option) rmdir_retry_loop ::
  "env \<Rightarrow> int \<Rightarrow> string \<Rightarrow> 32 word \<Rightarrow> 32 word \<Rightarrow> state \<Rightarrow> (int \<times> state) option" where
  "rmdir_retry_loop env fd name tot wait s =
     (case sys env (Unlinkat fd name) s of (r, s1) \<Rightarrow>
        if r_ret r = 0 then Some (0, s1)
        else if errno s1 \<noteq> EBUSY
        then Some (vzctl_err (- 1) (errno s1) (''Cannot remove dir '' @ name) s1)
        else (case sys env (Usleep (unat wait)) s1 of (u, s2) \<Rightarrow>
          let tot' = tot + wait;
              wait2 = wait * 2;
              wait' = (if wait2 > maxwait then maxwait else wait2)
          in if tot' < timeout then rmdir_retry_loop env fd name tot' wait' s2
             else Some (vzctl_err (- 1) (errno s2) (''Cannot remove dir '' @ name) s2)))"

definition rmdir_retry :: "env \<Rightarrow> int \<Rightarrow> string \<Rightarrow> state \<Rightarrow> (int \<times> state) option" where
  "rmdir_retry env fd name s = rmdir_retry_loop env fd name 0 10000 s"

subsection \<open>goto_next_dir\<close>

text \<open>
  The scan of the enumerated entries.  \<open>st\<close> is the local \<open>struct stat\<close>: a failing
  \<open>fstatat\<close> leaves it as it was.  The result is the return value with the new
  \<open>*parentfd\<close>, \<open>*fd\<close> and \<open>out\<close>; \<open>sz\<close> is the parameter \<open>size\<close>.
\<close>

fun goto_next_dir_loop ::
  "env \<Rightarrow> int \<Rightarrow> int \<Rightarrow> string \<Rightarrow> nat \<Rightarrow> stat \<Rightarrow> string list \<Rightarrow> state
    \<Rightarrow> (int \<times> int \<times> int \<times> string) \<times> state" where
  "goto_next_dir_loop env parentfd fd out sz st [] s = ((1, parentfd, fd, out), s)"
| "goto_next_dir_loop env parentfd fd out sz st (d_name # ents) s =
     (if d_name = ''.'' \<or> d_name = ''..''
      then goto_next_dir_loop env parentfd fd out sz st ents s
      else (case sys env (Fstatat fd d_name) s of (r, s1) \<Rightarrow>
        if r_ret r \<noteq> 0 \<and> errno s1 \<noteq> ENOENT
        then goto_next_dir_loop env parentfd fd out sz st ents
               (snd (vzctl_err (- 1) (errno s1) (''goto_next_dir fstatat '' @ d_name) s1))
        else (let st' = (if r_ret r \<noteq> 0 then st else r_stat r) in
          if S_ISDIR st'
          then (case sys env (Openat fd d_name) s1 of (nxt, s2) \<Rightarrow>
            if r_ret nxt = - 1
            then (if errno s2 = ENOENT
                  then goto_next_dir_loop env parentfd fd out sz st' ents s2
                  else (case vzctl_err (- 1) (errno s2) (''openat '' @ d_name) s2 of
                          (e, s3) \<Rightarrow> ((e, parentfd, fd, out), s3)))
            else ((0, fd, r_ret nxt, take (sz - 1) d_name),
                  (if parentfd \<noteq> - 1 then snd (sys env (Close parentfd) s2) else s2)))
          else goto_next_dir_loop env parentfd fd out sz st' ents s1)))"

definition goto_next_dir ::
  "env \<Rightarrow> int \<Rightarrow> int \<Rightarrow> string \<Rightarrow> nat \<Rightarrow> state \<Rightarrow> (int \<times> int \<times> int \<times> string) \<times> state" where
  "goto_next_dir env parentfd fd out sz s =
     (case sys env (Fdopendir fd) s of (dir, s1) \<Rightarrow>
        if r_ret dir < 0
        then (case vzctl_err (- 1) (errno s1) ''Can't opendir'' s1 of
                (e, s2) \<Rightarrow> ((e, parentfd, fd, out), s2))
        else (case sys env (Readdir fd) s1 of (ents, s2) \<Rightarrow>
          goto_next_dir_loop env parentfd fd out sz (r_stat (env (trace s2) Uninit))
            (r_names ents) s2))"

subsection \<open>rm_tree\<close>

text \<open>
  One pass through the body of the do-while loop of \<open>rm_tree\<close>.  \<open>Break\<close> carries the
  value \<open>ret\<close> has when the loop is left; \<open>Continue\<close> goes on to the test
  \<open>level >= 0\<close> (as the C \<open>continue\<close> of a do-while does).  \<open>st\<close> is the \<open>fstat\<close> of
  the root.  \<open>level\<close> is a C \<open>int\<close>; it is modelled unbounded.
\<close>

datatype flow = Continue | Break

definition rm_tree_body ::
  "env \<Rightarrow> stat \<Rightarrow> int \<Rightarrow> int \<Rightarrow> string \<Rightarrow> int \<Rightarrow> state
    \<Rightarrow> ((flow \<times> int \<times> int \<times> int \<times> string \<times> int) \<times> state) option" where
  "rm_tree_body env st parentfd fd name level s =
     (case goto_next_dir env parentfd fd name PATH_MAX s of ((rc, parentfd1, fd1, name1), s1) \<Rightarrow>
        if rc = 0 then Some ((Continue, 0, parentfd1, fd1, name1, level + 1), s1)
        else if rc = - 1 then Some ((Break, - 1, parentfd1, fd1, name1, level), s1)
        else (case sys env (Fstat fd1) s1 of (pst, s2) \<Rightarrow>
          if r_ret pst \<noteq> 0
          then (case vzctl_err (- 1) (errno s2) ''rm_tree fstat()'' s2 of
                  (e, s3) \<Rightarrow> Some ((Break, e, parentfd1, fd1, name1, level), s3))
          else if st_ino st = st_ino (r_stat pst)
          then Some ((Break, 0, parentfd1, fd1, name1, level), s2)
          else (case sys env (Openat parentfd1 ''..'') s2 of (pfd, s3) \<Rightarrow>
            if r_ret pfd = - 1
            then (case vzctl_err (- 1) (errno s3) ''openad ..'' s3 of
                    (e, s4) \<Rightarrow> Some ((Break, e, parentfd1, fd1, name1, level), s4))
            else (case sys env (Close fd1) s3 of (c, s4) \<Rightarrow>
              if name1 \<noteq> []
              then (case rmdir_retry env parentfd1 name1 s4 of
                      None \<Rightarrow> None
                    | Some (rr, s5) \<Rightarrow>
                        if rr \<noteq> 0
                        then Some ((Break, - 1, r_ret pfd, parentfd1, name1, level), s5)
                        else Some ((Continue, 0, r_ret pfd, parentfd1, [], level - 1), s5))
              else Some ((Continue, 0, r_ret pfd, parentfd1, [], level - 1), s4)))))"

partial_function (option) rm_tree_loop ::
  "env \<Rightarrow> stat \<Rightarrow> int \<Rightarrow> int \<Rightarrow> string \<Rightarrow> int \<Rightarrow> state
    \<Rightarrow> ((int \<times> int \<times> int) \<times> state) option" where
  "rm_tree_loop env st parentfd fd name level s =
     (case rm_tree_body env st parentfd fd name level s of
        None \<Rightarrow> None
      | Some ((fl, ret, parentfd', fd', name', level'), s') \<Rightarrow>
          if fl = Break then Some ((ret, parentfd', fd'), s')
          else if level' \<ge> 0 then rm_tree_loop env st parentfd' fd' name' level' s'
          else Some ((0, parentfd', fd'), s'))"

definition rm_tree :: "env \<Rightarrow> string \<Rightarrow> state \<Rightarrow> (int \<times> state) option" where
  "rm_tree env path s =
     (case sys env (OpenDir path) s of (fd, s1) \<Rightarrow>
        if r_ret fd = - 1
        then (if errno s1 = ENOENT then Some (0, s1)
              else Some (vzctl_err (- 1) (errno s1) (''Can't open '' @ path) s1))
        else (case sys env (Fstat (r_ret fd)) s1 of (st, s2) \<Rightarrow>
          if r_ret st \<noteq> 0
          then Some (- 1, snd (sys env (Close (r_ret fd))
                 (snd (vzctl_err (- 1) (errno s2) (''fstat '' @ path) s2))))
          else (case rm_tree_loop env (r_stat st) (- 1) (r_ret fd) [] 0 s2 of
                  None \<Rightarrow> None
                | Some ((ret, parentfd', fd'), s3) \<Rightarrow>
                    let s4 = (if fd' \<noteq> - 1 then snd (sys env (Close fd') s3) else s3);
                        s5 = (if parentfd' \<noteq> - 1 then snd (sys env (Close parentfd') s4) else s4)
                    in Some (ret, snd (sys env (Rmdir path) s5)))))"

section \<open>Controllers and the mount resolver\<close>

text \<open>
  What cgroup.c takes from headers that are not among the sources is a parameter: the
  format \<open>SYSTEMD_CTID_SCOPE_FMT\<close> (as the function from the container identifier to the
  formatted name), \<open>STR_SIZE\<close>, the \<open>VZCTL_E_*\<close> codes of vzerror.h, and the text
  parser and printer of bitmap.h.
\<close>

record headers =
  SYSTEMD_CTID_SCOPE_FMT :: "string \<Rightarrow> string"
  STR_SIZE :: nat
  VZCTL_E_SYSTEM :: int
  VZCTL_E_NOMEM :: int
  VZCTL_E_RESOURCE :: int
  VZCTL_E_CREATE_DIR :: int
  VZCTL_E_CPUMASK :: int
  vzctl2_bitmap_parse :: "string \<Rightarrow> nat \<Rightarrow> 64 word list option"
  bitmap_snprintf :: "nat \<Rightarrow> 64 word list \<Rightarrow> string"

datatype cg_ctl = Ctl (subsys: string) (is_prvt: bool)

text \<open>
  Modelled from the spec: the controller names behind the macros \<open>CG_CPU\<close> ...
  \<open>CG_PIDS\<close> of cgroup.h, which is not among the sources.  The spec lists the fixed set
  in table order (cpu, cpuset, net_cls, memory, devices, blkio, freezer,
  legacy-beancounter, container-state "ve", perf_event, hugetlb, pids, systemd) and names
  the control files \<open>beancounter.<name>.barrier\<close>.
\<close>

definition CG_CPU :: string where "CG_CPU = ''cpu''"
definition CG_CPUSET :: string where "CG_CPUSET = ''cpuset''"
definition CG_NET_CLS :: string where "CG_NET_CLS = ''net_cls''"
definition CG_MEMORY :: string where "CG_MEMORY = ''memory''"
definition CG_DEVICES :: string where "CG_DEVICES = ''devices''"
definition CG_BLKIO :: string where "CG_BLKIO = ''blkio''"
definition CG_FREEZER :: string where "CG_FREEZER = ''freezer''"
definition CG_UB :: string where "CG_UB = ''beancounter''"
definition CG_VE :: string where "CG_VE = ''ve''"
definition CG_PERF_EVENT :: string where "CG_PERF_EVENT = ''perf_event''"
definition CG_HUGETLB :: string where "CG_HUGETLB = ''hugetlb''"
definition CG_PIDS :: string where "CG_PIDS = ''pids''"

text \<open>The static table; its \<open>mount_path\<close> column is the \<open>mount_path\<close> of the state.\<close>

definition cg_ctl_map :: "cg_ctl list" where
  "cg_ctl_map =
     [Ctl CG_CPU False, Ctl CG_CPUSET False, Ctl CG_NET_CLS False, Ctl CG_MEMORY False,
      Ctl CG_DEVICES False, Ctl CG_BLKIO False, Ctl CG_FREEZER False, Ctl CG_UB True,
      Ctl CG_VE True, Ctl CG_PERF_EVENT False, Ctl CG_HUGETLB False, Ctl CG_PIDS False,
      Ctl ''systemd'' False]"

definition cg_is_systemd :: "string \<Rightarrow> bool" where
  "cg_is_systemd subsys' = (subsys' = ''systemd'')"

text \<open>\<open>strsep\<close> with the delimiter ",": the tokens of a buffer, empty ones included.\<close>

fun strsep :: "string \<Rightarrow> string \<Rightarrow> string list" where
  "strsep acc [] = [rev acc]"
| "strsep acc (c # cs) =
     (if c = CHR '','' then rev acc # strsep [] cs else strsep (c # acc) cs)"

definition has_substr :: "string \<Rightarrow> string \<Rightarrow> bool" where
  "has_substr buf str = (str \<in> set (strsep [] buf))"

definition get_mount_path ::
  "env \<Rightarrow> string \<Rightarrow> nat \<Rightarrow> state \<Rightarrow> (int \<times> string) \<times> state" where
  "get_mount_path env subsys' sz s =
     (case sys env ProcMounts s of (fp, s1) \<Rightarrow>
        if r_ret fp < 0
        then (case vzctl_err (- 1) (errno s1) ''Can't open /proc/mounts'' s1 of
                (e, s2) \<Rightarrow> ((e, []), s2))
        else (case find (\<lambda>(target, ops). has_substr ops
                      (if \<not> cg_is_systemd subsys' then subsys' else ''name=systemd''))
                    (r_pairs fp) of
                None \<Rightarrow> ((1, []), s1)
              | Some (target, ops) \<Rightarrow> ((0, take (sz - 1) target), s1)))"

text \<open>The index of the first table entry with that name (the pointer into the table).\<close>

definition find_cg_ctl :: "string \<Rightarrow> nat option" where
  "find_cg_ctl subsys' =
     find (\<lambda>i. subsys (cg_ctl_map ! i) = subsys') [0..<length cg_ctl_map]"

definition cg_get_ctl :: "env \<Rightarrow> string \<Rightarrow> state \<Rightarrow> (int \<times> nat option) \<times> state" where
  "cg_get_ctl env subsys' s =
     (case find_cg_ctl subsys' of
        None \<Rightarrow> (case vzctl_err (- 1) 0 (''Unknown cgroup subsystem '' @ subsys') s of
                   (e, s1) \<Rightarrow> ((e, None), s1))
      | Some i \<Rightarrow>
          if mount_path s i \<noteq> None then ((0, Some i), s)
          else (case get_mount_path env subsys' PATH_MAX s of ((ret, mp), s1) \<Rightarrow>
            if ret \<noteq> 0
            then (if ret \<noteq> - 1
                  then ((ret, Some i),
                        snd (vzctl_err (- 1) 0
                          (''Unable to find mount point for '' @ subsys' @ '' cgroup'') s1))
                  else ((ret, Some i), s1))
            else (case sys env (Xstrdup mp) s1 of (x, s2) \<Rightarrow>
              if r_ret x \<noteq> 0 then ((- 1, Some i), s2)
              else ((0, Some i), s2\<lparr>mount_path := (mount_path s2)(i := Some mp)\<rparr>))))"

text \<open>
  \<open>cg_get_slice_name\<close>: the static buffer \<open>slice\<close> is filled on the first call.
  \<open>get_global_param\<close> is a helper outside cgroup.c; when it returns non-zero the buffer
  (zero-initialised, 64 bytes) receives the literal.
\<close>

definition cg_get_slice_name :: "env \<Rightarrow> state \<Rightarrow> string \<times> state" where
  "cg_get_slice_name env s =
     (case slice s of
        Some n \<Rightarrow> (n, s)
      | None \<Rightarrow> (case sys env (GetGlobalParam ''VE_CGROUP_SLICE'') s of (g, s1) \<Rightarrow>
          let n = (if r_ret g \<noteq> 0 then ''machine.slice'' else take 63 (r_data g))
          in (n, s1\<lparr>slice := Some n\<rparr>)))"

text \<open>glibc prints a NULL \<open>%s\<close> argument as \<open>(null)\<close>.\<close>

definition str_or_null :: "string option \<Rightarrow> string" where
  "str_or_null p = (case p of None \<Rightarrow> ''(null)'' | Some x \<Rightarrow> x)"

definition get_cgroup_name ::
  "headers \<Rightarrow> env \<Rightarrow> string \<Rightarrow> nat \<Rightarrow> nat \<Rightarrow> state \<Rightarrow> string \<times> state" where
  "get_cgroup_name H env ctid ctl sz s =
     (if cg_is_systemd (subsys (cg_ctl_map ! ctl))
      then (take (sz - 1) (str_or_null (mount_path s ctl) @ ''/'' @ SYSTEMD_CTID_SCOPE_FMT H ctid), s)
      else if is_prvt (cg_ctl_map ! ctl)
      then (take (sz - 1) (str_or_null (mount_path s ctl) @ ''/'' @ ctid), s)
      else (case cg_get_slice_name env s of (sl, s1) \<Rightarrow>
        (take (sz - 1) (str_or_null (mount_path s ctl) @ ''/'' @ sl @ ''/'' @ ctid), s1)))"

section \<open>Hierarchy lifecycle\<close>

text \<open>\<open>make_dir(path, 1)\<close> is a helper outside cgroup.c: the call \<open>MakeDir\<close>.\<close>

definition cg_create :: "headers \<Rightarrow> env \<Rightarrow> string \<Rightarrow> nat \<Rightarrow> state \<Rightarrow> int \<times> state" where
  "cg_create H env ctid ctl s =
     (case get_cgroup_name H env ctid ctl PATH_MAX s of (path, s1) \<Rightarrow>
        (case sys env (MakeDir path) (logger 3 0 (''Create cgroup '' @ path) s1) of
           (r, s2) \<Rightarrow> (r_ret r, s2)))"

definition cg_destroy :: "headers \<Rightarrow> env \<Rightarrow> string \<Rightarrow> nat \<Rightarrow> state \<Rightarrow> (int \<times> state) option" where
  "cg_destroy H env ctid ctl s =
     (if mount_path s ctl = None then Some (0, s)
      else (case get_cgroup_name H env ctid ctl PATH_MAX s of (path, s1) \<Rightarrow>
        (case rm_tree env path s1 of
           None \<Rightarrow> None
         | Some (r, s2) \<Rightarrow> if r \<noteq> 0 then Some (VZCTL_E_SYSTEM H, s2) else Some (0, s2))))"

text \<open>
  The for loop of \<open>cg_new_cgroup\<close> over the indices still to visit.  It ends with
  \<open>(0, None)\<close> when it runs through, and with \<open>(ret, Some i)\<close> when it jumps to \<open>err\<close>
  at index \<open>i\<close>.  A NULL \<open>ctl\<close> with a return value other than -1 cannot come out of
  \<open>cg_get_ctl\<close>; dereferencing it would leave the call without a result.
\<close>

fun cg_new_cgroup_loop ::
  "headers \<Rightarrow> env \<Rightarrow> string \<Rightarrow> nat list \<Rightarrow> state \<Rightarrow> ((int \<times> nat option) \<times> state) option" where
  "cg_new_cgroup_loop H env ctid [] s = Some ((0, None), s)"
| "cg_new_cgroup_loop H env ctid (i # is) s =
     (case cg_get_ctl env (subsys (cg_ctl_map ! i)) s of ((ret, ctl), s1) \<Rightarrow>
        if ret = - 1 then Some ((ret, Some i), s1)
        else if ret \<noteq> 0 then cg_new_cgroup_loop H env ctid is s1
        else (case ctl of
                None \<Rightarrow> None
              | Some c \<Rightarrow> (case cg_create H env ctid c s1 of (ret', s2) \<Rightarrow>
                  if ret' \<noteq> 0 then Some ((ret', Some i), s2)
                  else cg_new_cgroup_loop H env ctid is s2)))"

text \<open>The loop at \<open>err\<close>: \<open>for (i = i - 1; i >= 0; i--) cg_destroy(ctid, &cg_ctl_map[i])\<close>.\<close>

fun cg_new_cgroup_err :: "headers \<Rightarrow> env \<Rightarrow> string \<Rightarrow> nat \<Rightarrow> state \<Rightarrow> state option" where
  "cg_new_cgroup_err H env ctid 0 s = Some s"
| "cg_new_cgroup_err H env ctid (Suc i) s =
     (case cg_destroy H env ctid i s of
        None \<Rightarrow> None
      | Some (r, s1) \<Rightarrow> cg_new_cgroup_err H env ctid i s1)"

definition cg_new_cgroup :: "headers \<Rightarrow> env \<Rightarrow> string \<Rightarrow> state \<Rightarrow> (int \<times> state) option" where
  "cg_new_cgroup H env ctid s =
     (case cg_new_cgroup_loop H env ctid [0..<length cg_ctl_map] s of
        None \<Rightarrow> None
      | Some ((ret, None), s1) \<Rightarrow> Some (0, s1)
      | Some ((ret, Some i), s1) \<Rightarrow>
          (case cg_new_cgroup_err H env ctid i s1 of
             None \<Rightarrow> None
           | Some s2 \<Rightarrow> Some (ret, s2)))"

text \<open>The for loop of \<open>cg_destroy_cgroup\<close>; \<open>ret\<close> is the value accumulated so far.\<close>

fun cg_destroy_cgroup_loop ::
  "headers \<Rightarrow> env \<Rightarrow> string \<Rightarrow> nat list \<Rightarrow> int \<Rightarrow> state \<Rightarrow> (int \<times> state) option" where
  "cg_destroy_cgroup_loop H env ctid [] ret s = Some (ret, s)"
| "cg_destroy_cgroup_loop H env ctid (i # is) ret s =
     (case cg_get_ctl env (subsys (cg_ctl_map ! i)) s of ((rc, ctl), s1) \<Rightarrow>
        if rc \<noteq> 0 then cg_destroy_cgroup_loop H env ctid is ret s1
        else (case ctl of
                None \<Rightarrow> None
              | Some c \<Rightarrow> (case cg_destroy H env ctid c s1 of
                  None \<Rightarrow> None
                | Some (r, s2) \<Rightarrow> cg_destroy_cgroup_loop H env ctid is (ret OR r) s2)))"

definition cg_destroy_cgroup :: "headers \<Rightarrow> env \<Rightarrow> string \<Rightarrow> state \<Rightarrow> (int \<times> state) option" where
  "cg_destroy_cgroup H env ctid s =
     cg_destroy_cgroup_loop H env ctid [0..<length cg_ctl_map] 0 s"

section \<open>Parameter I/O\<close>

text \<open>
  Behaviour that C leaves undefined is a value of its own: an access to a buffer
  outside its bounds (with the index), a NULL string handed to a string function, a
  floating-point value converted to an integer type that cannot hold it, a buffer read
  before anything was written to it.
\<close>

datatype ub = OutOfBounds int | NullPointer | FloatRange | Uninitialised

datatype 'a outcome = UB ub | Ret 'a

definition do_write_data ::
  "env \<Rightarrow> int \<Rightarrow> string option \<Rightarrow> string \<Rightarrow> nat \<Rightarrow> state \<Rightarrow> int \<times> state" where
  "do_write_data env fd fname data len s =
     (case sys env (Write fd (take len data)) s of (w, s1) \<Rightarrow>
        if r_ret w \<noteq> int len
        then (let eno = errno s1;
                  s2 = (if r_ret w < 0
                        then logger (- 1) (errno s1)
                               (''Error writing to '' @ (case fname of None \<Rightarrow> [] | Some f \<Rightarrow> f)
                                 @ '' data='' @ [CHR 0x27] @ data @ [CHR 0x27]) s1
                        else logger (- 1) 0
                               (''Output truncated while writing to ''
                                 @ (case fname of None \<Rightarrow> [] | Some f \<Rightarrow> f)) s1)
              in (- 1, s2\<lparr>errno := eno\<rparr>))
        else (0, s1))"

definition write_data :: "env \<Rightarrow> string \<Rightarrow> string \<Rightarrow> state \<Rightarrow> int \<times> state" where
  "write_data env path data s =
     (case sys env (OpenWr path) s of (fd, s1) \<Rightarrow>
        if r_ret fd < 0
        then vzctl_err (if errno s1 = ENOENT then 1 else - 1) (errno s1)
               (''Can't open '' @ path @ '' for writing'') s1
        else (case do_write_data env (r_ret fd) (Some path) data (length data)
                     (logger 3 0 (''Write '' @ path @ '' <'' @ data @ ''>'') s1) of
                (ret, s2) \<Rightarrow>
                  if ret = - 1
                  then (let eno = errno s2
                        in (- 1, (snd (sys env (Close (r_ret fd)) s2))\<lparr>errno := eno\<rparr>))
                  else (case sys env (Close (r_ret fd)) s2 of (c, s3) \<Rightarrow>
                    if r_ret c \<noteq> 0
                    then vzctl_err (- 1) (errno s3) (''Error on on close fd '' @ path) s3
                    else (0, s3))))"

text \<open>
  The C string a buffer holds: the bytes before the first NUL.
\<close>

definition cstr :: "string \<Rightarrow> string" where
  "cstr bytes = takeWhile (\<lambda>c. c \<noteq> CHR 0x00) bytes"

text \<open>
  \<open>cg_read\<close>: \<open>read\<close> stores \<open>r\<close> bytes, at most \<open>size - 1\<close> (\<open>sz\<close> is the parameter
  \<open>size\<close>, at least 1), into \<open>out\<close>.  \<open>out\<close> has the indices \<open>0 .. size - 1\<close>; each
  access \<open>out[i]\<close> is checked against them.  The result holds the return value and the
  string left in \<open>out\<close>.
\<close>

definition in_bounds :: "nat \<Rightarrow> int \<Rightarrow> bool" where
  "in_bounds sz i = (0 \<le> i \<and> i < int sz)"

definition cg_read :: "env \<Rightarrow> string \<Rightarrow> nat \<Rightarrow> state \<Rightarrow> (int \<times> string) outcome \<times> state" where
  "cg_read env path sz s =
     (case sys env (OpenRd path) s of (fd, s1) \<Rightarrow>
        if r_ret fd < 0
        then (case vzctl_err (- errno s1) (errno s1) (''Can't open '' @ path @ '' for reading'') s1 of
                (e, s2) \<Rightarrow> (Ret (e, []), s2))
        else (case sys env (Read (r_ret fd) (sz - 1)) s1 of (rd, s2) \<Rightarrow>
          (case sys env (Close (r_ret fd)) s2 of (c, s3) \<Rightarrow>
            if r_ret rd < 0
            then (case vzctl_err (- errno s3) (errno s3) (''Error reading from file '' @ path) s3 of
                    (e, s4) \<Rightarrow> (Ret (e, []), s4))
            else (let out = take (sz - 1) (r_data rd);
                      r = int (length out)
                  in if \<not> in_bounds sz (r - 1) then (UB (OutOfBounds (r - 1)), s3)
                     else if out ! nat (r - 1) = CHR 0x0A
                     then (Ret (0, cstr (take (nat (r - 1)) out)), s3)
                     else if \<not> in_bounds sz r then (UB (OutOfBounds r), s3)
                     else (Ret (0, cstr out), s3)))))"

definition cg_get_path ::
  "headers \<Rightarrow> env \<Rightarrow> string option \<Rightarrow> string \<Rightarrow> string \<Rightarrow> nat \<Rightarrow> state
    \<Rightarrow> (int \<times> string) outcome \<times> state" where
  "cg_get_path H env ctid subsys' name sz s =
     (case cg_get_ctl env subsys' s of ((ret, ctl), s1) \<Rightarrow>
        if ret \<noteq> 0 then (Ret (ret, []), s1)
        else (case ctl of
                None \<Rightarrow> (UB NullPointer, s1)
              | Some c \<Rightarrow>
                  (case ctid of
                     None \<Rightarrow> (Ret (0, take (sz - 1) (str_or_null (mount_path s1 c) @ ''/'' @ name)), s1)
                   | Some ct \<Rightarrow> (case get_cgroup_name H env ct c PATH_MAX s1 of (path, s2) \<Rightarrow>
                       (Ret (0, take (sz - 1) (path @ ''/'' @ name)), s2)))))"

definition cg_set_param ::
  "headers \<Rightarrow> env \<Rightarrow> string option \<Rightarrow> string \<Rightarrow> string \<Rightarrow> string \<Rightarrow> state
    \<Rightarrow> int outcome \<times> state" where
  "cg_set_param H env ctid subsys' name data s =
     (case cg_get_path H env ctid subsys' name PATH_MAX s of
        (UB u, s1) \<Rightarrow> (UB u, s1)
      | (Ret (ret, path), s1) \<Rightarrow>
          if ret \<noteq> 0 then (Ret ret, s1)
          else (case write_data env path data s1 of (w, s2) \<Rightarrow> (Ret w, s2)))"

text \<open>\<open>snprintf(data, 32, "%lu", value)\<close>: an \<open>unsigned long\<close> (64 bits) in decimal.\<close>

fun dec :: "nat \<Rightarrow> string" where
  "dec n = (if n < 10 then [''0123456789'' ! n]
            else dec (n div 10) @ [''0123456789'' ! (n mod 10)])"

definition cg_set_ul ::
  "headers \<Rightarrow> env \<Rightarrow> string option \<Rightarrow> string \<Rightarrow> string \<Rightarrow> 64 word \<Rightarrow> state
    \<Rightarrow> int outcome \<times> state" where
  "cg_set_ul H env ctid subsys' name v s =
     cg_set_param H env ctid subsys' name (take 31 (dec (unat v))) s"

definition cg_get_param ::
  "headers \<Rightarrow> env \<Rightarrow> string option \<Rightarrow> string \<Rightarrow> string \<Rightarrow> nat \<Rightarrow> state
    \<Rightarrow> (int \<times> string) outcome \<times> state" where
  "cg_get_param H env ctid subsys' name sz s =
     (case cg_get_path H env ctid subsys' name PATH_MAX s of
        (UB u, s1) \<Rightarrow> (UB u, s1)
      | (Ret (ret, path), s1) \<Rightarrow>
          if ret \<noteq> 0 then (Ret (ret, []), s1)
          else cg_read env path sz s1)"

text \<open>
  Modelled from the spec: \<open>parse_ul\<close> of util.c, which is not among the sources.  The
  spec: typed helpers "parse decimal text back for reads, failing with a parse error on
  trailing non-digit characters or out-of-range magnitude".  The result is the return
  value and the number.
\<close>

definition is_digit :: "char \<Rightarrow> bool" where
  "is_digit c = (c \<in> set ''0123456789'')"

definition digit_val :: "char \<Rightarrow> nat" where
  "digit_val c = of_char c - 48"

definition parse_ul :: "string \<Rightarrow> int \<times> 64 word" where
  "parse_ul str =
     (let n = foldl (\<lambda>a c. 10 * a + digit_val c) 0 (takeWhile is_digit str)
      in if dropWhile is_digit str \<noteq> [] \<or> n \<ge> 2 ^ 64 then (1, 0) else (0, word_of_nat n))"

definition cg_get_ul ::
  "headers \<Rightarrow> env \<Rightarrow> string option \<Rightarrow> string \<Rightarrow> string \<Rightarrow> state
    \<Rightarrow> (int \<times> 64 word) outcome \<times> state" where
  "cg_get_ul H env ctid subsys' name s =
     (case cg_get_param H env ctid subsys' name 32 s of
        (UB u, s1) \<Rightarrow> (UB u, s1)
      | (Ret (ret, data), s1) \<Rightarrow>
          if ret \<noteq> 0 then (Ret (ret, 0), s1)
          else (Ret (parse_ul data), s1))"

section \<open>Resource limit accessors\<close>

subsection \<open>The CPU rate limit\<close>

text \<open>
  A finite \<open>float\<close> is modelled by the rational number it denotes.  \<open>f32\<close> rounds a
  rational to the nearest number with a 24-bit significand, ties to even: the result
  of a single-precision operation in the normal range.  (Overflow to infinity and the
  subnormal range are left out; \<open>cg_env_set_cpulimit\<close> converts the quotient to
  \<open>unsigned long\<close>, which is 0 for every value below 1 and undefined from \<open>2^64\<close> on,
  so neither changes what it computes.)  \<open>ilog2 x\<close> is the exponent of a positive
  \<open>x\<close>: \<open>2^(ilog2 x) \<le> x < 2^(ilog2 x + 1)\<close>.
\<close>

definition pow2 :: "int \<Rightarrow> rat" where
  "pow2 e = (if 0 \<le> e then 2 ^ nat e else 1 / 2 ^ nat (- e))"

definition ilog2 :: "rat \<Rightarrow> int" where
  "ilog2 x =
     (case quotient_of x of (p, q) \<Rightarrow>
        let d = int (floorlog 2 (nat p)) - int (floorlog 2 (nat q))
        in if pow2 d \<le> x then d else d - 1)"

definition round_even :: "rat \<Rightarrow> int" where
  "round_even q =
     (let f = \<lfloor>q\<rfloor>; r = q - of_int f
      in if r < 1 / 2 then f else if 1 / 2 < r then f + 1 else if even f then f else f + 1)"

definition f32 :: "rat \<Rightarrow> rat" where
  "f32 x =
     (if x = 0 then 0
      else let u = pow2 (ilog2 \<bar>x\<bar> - 23)
           in sgn x * of_int (round_even (\<bar>x\<bar> / u)) * u)"

text \<open>
  The conversion of a \<open>float\<close> to \<open>unsigned long\<close> discards the fractional part; it is
  undefined when the integral part is not a value of the type.
\<close>

definition float_to_ulong :: "rat \<Rightarrow> 64 word outcome" where
  "float_to_ulong x =
     (if - 1 < x \<and> x < 2 ^ 64 then Ret (word_of_int (if x < 0 then 0 else \<lfloor>x\<rfloor>))
      else UB FloatRange)"

definition cg_env_set_cpulimit ::
  "headers \<Rightarrow> env \<Rightarrow> string \<Rightarrow> rat \<Rightarrow> state \<Rightarrow> int outcome \<times> state" where
  "cg_env_set_cpulimit H env ctid limit s =
     (case float_to_ulong (f32 (f32 (limit * 1024) / 100)) of
        UB u \<Rightarrow> (UB u, s)
      | Ret limit1024 \<Rightarrow> cg_set_ul H env (Some ctid) CG_CPU ''cpu.rate'' limit1024 s)"

text \<open>The result is the return value and \<open>*limit\<close> (unchanged, here 0, on failure).\<close>

definition cg_env_get_cpulimit ::
  "headers \<Rightarrow> env \<Rightarrow> string \<Rightarrow> state \<Rightarrow> (int \<times> rat) outcome \<times> state" where
  "cg_env_get_cpulimit H env ctid s =
     (case cg_get_ul H env (Some ctid) CG_CPU ''cpu.rate'' s of
        (UB u, s1) \<Rightarrow> (UB u, s1)
      | (Ret (ret, limit1024), s1) \<Rightarrow>
          if ret \<noteq> 0 then (Ret (ret, 0), s1)
          else (Ret (0, f32 (of_nat (unat (limit1024 * 100 div 1024)))), s1))"

subsection \<open>The cpuset masks\<close>

text \<open>
  Modelled from the spec: \<open>bitmap_and\<close> of bitmap.h, which is not among the sources; the
  spec names a bitmap type "supporting text-parse, bitwise AND, and text-format" and has
  the accessor "compute its bitwise intersection ... and require the intersection to be
  non-empty".  A bitmap is the array of \<open>unsigned long\<close> it is stored in.  The result is
  the destination array and the return value (whether a bit is set in it).
\<close>

definition bitmap_and :: "64 word list \<Rightarrow> 64 word list \<Rightarrow> 64 word list \<times> bool" where
  "bitmap_and bitmap1 bitmap2 =
     (let dst = map2 (AND) bitmap1 bitmap2 in (dst, list_ex (\<lambda>w. w \<noteq> 0) dst))"

text \<open>
  \<open>cg_env_set_mask\<close> tests \<open>cg_get_param(...) < 0\<close>; \<open>cg_get_param\<close> returns 1 when the
  cpuset mount is not found and has then written nothing to \<open>buf\<close>, which the parser
  goes on to read.
\<close>

definition cg_env_set_mask ::
  "headers \<Rightarrow> env \<Rightarrow> string \<Rightarrow> string \<Rightarrow> 64 word list \<Rightarrow> nat \<Rightarrow> state \<Rightarrow> int outcome \<times> state" where
  "cg_env_set_mask H env ctid name cpumask sz s =
     (let cg_name = take 63 (''cpuset.'' @ name) in
      case cg_get_param H env (Some []) CG_CPUSET cg_name 4096 s of
        (UB u, s1) \<Rightarrow> (UB u, s1)
      | (Ret (ret, buf), s1) \<Rightarrow>
          if ret < 0
          then (case vzctl_err (VZCTL_E_CPUMASK H) 0
                       (''Unable to get active '' @ cg_name @ '' mask'') s1 of
                  (e, s2) \<Rightarrow> (Ret e, s2))
          else if ret \<noteq> 0 then (UB Uninitialised, s1)
          else (case sys env (Malloc sz) s1 of (m, s2) \<Rightarrow>
            if r_ret m < 0
            then (case vzctl_err (VZCTL_E_NOMEM H) ENOMEM ''cg_env_set_mask'' s2 of
                    (e, s3) \<Rightarrow> (Ret e, s3))
            else (case vzctl2_bitmap_parse H buf sz of
                    None \<Rightarrow>
                      (case vzctl_err (VZCTL_E_CPUMASK H) 0
                              (''Can't parse active '' @ name @ '' mask: '' @ buf) s2 of
                         (e, s3) \<Rightarrow> (Ret e, s3))
                  | Some active \<Rightarrow>
                      (case bitmap_and cpumask active of (mask', nonempty) \<Rightarrow>
                         if \<not> nonempty
                         then (case vzctl_err (VZCTL_E_CPUMASK H) 0
                                      (''Unable to set '' @ name @ '' value ''
                                        @ bitmap_snprintf H 4096 cpumask
                                        @ '', supported range: '' @ buf) s2 of
                                 (e, s3) \<Rightarrow> (Ret e, s3))
                         else (case cg_set_param H env (Some ctid) CG_CPUSET
                                      (take 63 (''cpuset.'' @ name))
                                      (bitmap_snprintf H 4096 mask') s2 of
                                 (UB u, s3) \<Rightarrow> (UB u, s3)
                               | (Ret w, s3) \<Rightarrow>
                                   if w \<noteq> 0
                                   then (case vzctl_err (VZCTL_E_CPUMASK H) (errno s3)
                                                (''Unable to set '' @ take 63 (''cpuset.'' @ name)) s3 of
                                           (e, s4) \<Rightarrow> (Ret e, s4))
                                   else (Ret 0, s3))))))"

definition cg_env_set_cpumask ::
  "headers \<Rightarrow> env \<Rightarrow> string \<Rightarrow> 64 word list \<Rightarrow> nat \<Rightarrow> state \<Rightarrow> int outcome \<times> state" where
  "cg_env_set_cpumask H env ctid cpumask sz s = cg_env_set_mask H env ctid ''cpus'' cpumask sz s"

definition cg_env_set_nodemask ::
  "headers \<Rightarrow> env \<Rightarrow> string \<Rightarrow> 64 word list \<Rightarrow> nat \<Rightarrow> state \<Rightarrow> int outcome \<times> state" where
  "cg_env_set_nodemask H env ctid nodemask sz s = cg_env_set_mask H env ctid ''mems'' nodemask sz s"

section \<open>The freezer\<close>

text \<open>
  \<open>strncmp(buf, state, len) == 0\<close> for strings without NUL: the first \<open>len\<close> characters
  agree.  \<open>freezer_poll\<close> is the \<open>while (1)\<close> loop; \<open>state'\<close> is the parameter \<open>state\<close>.
\<close>

definition strncmp_eq :: "string \<Rightarrow> string \<Rightarrow> nat \<Rightarrow> bool" where
  "strncmp_eq a b n = (take n a = take n b)"

partial_function (option) freezer_poll ::
  "headers \<Rightarrow> env \<Rightarrow> string \<Rightarrow> string \<Rightarrow> nat \<Rightarrow> state \<Rightarrow> (int outcome \<times> state) option" where
  "freezer_poll H env ctid state' len s =
     (case cg_get_param H env (Some ctid) CG_FREEZER ''freezer.state'' (STR_SIZE H) s of
        (UB u, s1) \<Rightarrow> Some (UB u, s1)
      | (Ret (ret, buf), s1) \<Rightarrow>
          if ret \<noteq> 0 then Some (Ret ret, s1)
          else if strncmp_eq buf state' len then Some (Ret 0, s1)
          else freezer_poll H env ctid state' len (snd (sys env (Sleep 1) s1)))"

definition cg_set_freezer_state ::
  "headers \<Rightarrow> env \<Rightarrow> string \<Rightarrow> string \<Rightarrow> state \<Rightarrow> (int outcome \<times> state) option" where
  "cg_set_freezer_state H env ctid state' s =
     (case cg_set_param H env (Some ctid) CG_FREEZER ''freezer.state'' state' s of
        (UB u, s1) \<Rightarrow> Some (UB u, s1)
      | (Ret ret, s1) \<Rightarrow>
          if ret \<noteq> 0 then Some (Ret ret, s1)
          else freezer_poll H env ctid state' (length state') s1)"

section \<open>Bind-mount namespace setup\<close>

text \<open>
  Modelled from the spec: \<open>find_str\<close> and \<open>add_str_param\<close> of the string list helpers,
  which are not among the sources ("an ordered growable string container").  A list is
  the sequence of its strings; \<open>add_str_param\<close> appends at the end and returns NULL when
  it cannot allocate (the call \<open>AddStrParam\<close>).
\<close>

definition find_str :: "string list \<Rightarrow> string \<Rightarrow> bool" where
  "find_str head str = (str \<in> set head)"

text \<open>The expression \<open>access(path, F_OK) && make_dir(path, 1)\<close>.\<close>

definition access_and_make_dir :: "env \<Rightarrow> string \<Rightarrow> state \<Rightarrow> bool \<times> state" where
  "access_and_make_dir env path s =
     (case sys env (Access path) s of (a, s1) \<Rightarrow>
        if r_ret a \<noteq> 0
        then (case sys env (MakeDir path) s1 of (m, s2) \<Rightarrow> (r_ret m \<noteq> 0, s2))
        else (False, s1))"

definition do_bindmount ::
  "headers \<Rightarrow> env \<Rightarrow> string \<Rightarrow> string \<Rightarrow> mnt_flag list \<Rightarrow> state \<Rightarrow> int \<times> state" where
  "do_bindmount H env src dst mnt_flags s =
     (case access_and_make_dir env dst s of (f, s1) \<Rightarrow>
        if f then vzctl_err (VZCTL_E_RESOURCE H) (errno s1) (''Can't create '' @ dst) s1
        else (case access_and_make_dir env src s1 of (g, s2) \<Rightarrow>
          if g then vzctl_err (VZCTL_E_RESOURCE H) (errno s2) (''Can't create '' @ src) s2
          else (case sys env (Mount (Some src) (Some dst) None mnt_flags)
                       (logger 5 0 (''bindmount '' @ src @ '' -> '' @ dst) s2) of
                  (m, s3) \<Rightarrow>
                    if r_ret m \<noteq> 0
                    then vzctl_err (VZCTL_E_RESOURCE H) (errno s3)
                           (''Can't bindmount '' @ src @ '' -> '' @ dst) s3
                    else (0, s3))))"

text \<open>
  \<open>create_perctl_symlink\<close>: the loop runs over the comma-separated names of the last
  path component.
\<close>

fun create_perctl_symlink_loop ::
  "env \<Rightarrow> string \<Rightarrow> string \<Rightarrow> string \<Rightarrow> string list \<Rightarrow> state \<Rightarrow> int \<times> state" where
  "create_perctl_symlink_loop env root' path oldpath [] s = (0, s)"
| "create_perctl_symlink_loop env root' path oldpath (name # names) s =
     (let newpath = take (PATH_MAX - 1) (root' @ ''/'' @ path @ ''/../'' @ name);
          s1 = logger 10 0 (''Create symlink '' @ oldpath @ '' -> '' @ name) s;
          s2 = snd (sys env (Unlink newpath) s1)
      in (case sys env (Symlink oldpath newpath) s2 of (l, s3) \<Rightarrow>
            if r_ret l \<noteq> 0 \<and> errno s3 \<noteq> EEXIST
            then vzctl_err (- 1) (errno s3) (''Cant create symlink '' @ path @ '' -> '' @ name) s3
            else create_perctl_symlink_loop env root' path oldpath names s3))"

definition create_perctl_symlink ::
  "headers \<Rightarrow> env \<Rightarrow> string \<Rightarrow> string \<Rightarrow> state \<Rightarrow> int \<times> state" where
  "create_perctl_symlink H env root' path s =
     (if CHR ''/'' \<notin> set path then (0, s)
      else (let buf = take (STR_SIZE H - 1) (rev (takeWhile (\<lambda>c. c \<noteq> CHR ''/'') (rev path)))
            in if CHR '','' \<notin> set buf then (0, s)
               else create_perctl_symlink_loop env root' path buf (strsep [] buf) s))"

fun get_cgroups_loop ::
  "headers \<Rightarrow> env \<Rightarrow> string list \<Rightarrow> string list \<Rightarrow> state \<Rightarrow> (int \<times> string list) \<times> state" where
  "get_cgroups_loop H env [] head s = ((0, head), s)"
| "get_cgroups_loop H env (buf # lines) head s =
     (if take 1 buf = ''#'' then get_cgroups_loop H env lines head s
      else (case sys env (AddStrParam buf) s of (a, s1) \<Rightarrow>
        if r_ret a < 0 then ((VZCTL_E_NOMEM H, head), s1)
        else get_cgroups_loop H env lines (head @ [buf]) s1))"

definition get_cgroups :: "headers \<Rightarrow> env \<Rightarrow> state \<Rightarrow> (int \<times> string list) \<times> state" where
  "get_cgroups H env s =
     (case sys env ProcCgroups s of (fp, s1) \<Rightarrow>
        if r_ret fp < 0
        then (case vzctl_err (VZCTL_E_SYSTEM H) (errno s1) ''Unable to open /proc/cgroups'' s1 of
                (e, s2) \<Rightarrow> ((e, []), s2))
        else (case get_cgroups_loop H env (r_names fp) [] s1 of ((ret, head), s2) \<Rightarrow>
          ((ret, if ret \<noteq> 0 then [] else head), s2)))"

text \<open>
  The for loop of \<open>cg_bindmount_cgroup\<close> over the indices still to visit; it ends where
  the C loop reaches the label \<open>err\<close> (by \<open>goto\<close>, by \<open>break\<close> or by running through) with
  the value of \<open>ret\<close> and the list \<open>head\<close>.  \<open>ret\<close> is the value the last pass left.
  A controller whose \<open>mount_path\<close> is NULL reaches \<open>find_str\<close> with a NULL string.
\<close>

fun cg_bindmount_cgroup_loop ::
  "headers \<Rightarrow> env \<Rightarrow> string \<Rightarrow> string \<Rightarrow> string list \<Rightarrow> nat list \<Rightarrow> int \<Rightarrow> string list
    \<Rightarrow> state \<Rightarrow> (int \<times> string list) outcome \<times> state" where
  "cg_bindmount_cgroup_loop H env ve_root ctid cgroups [] ret head s = (Ret (ret, head), s)"
| "cg_bindmount_cgroup_loop H env ve_root ctid cgroups (i # is) ret head s =
     (case cg_get_ctl env (subsys (cg_ctl_map ! i)) s of ((ret1, ctl), s1) \<Rightarrow>
        if ret1 = - 1 then (Ret (ret1, head), s1)
        else (case ctl of
          None \<Rightarrow> (UB NullPointer, s1)
        | Some c \<Rightarrow>
            if is_prvt (cg_ctl_map ! c)
            then cg_bindmount_cgroup_loop H env ve_root ctid cgroups is ret1 head s1
            else if \<not> cg_is_systemd (subsys (cg_ctl_map ! c))
                    \<and> \<not> find_str cgroups (subsys (cg_ctl_map ! c))
            then cg_bindmount_cgroup_loop H env ve_root ctid cgroups is ret1 head s1
            else (case mount_path s1 c of
              None \<Rightarrow> (UB NullPointer, s1)
            | Some mnt \<Rightarrow>
                if find_str head mnt
                then cg_bindmount_cgroup_loop H env ve_root ctid cgroups is ret1 head s1
                else (case sys env (Mount None (Some mnt) None [MS_SLAVE]) s1 of (m, s2) \<Rightarrow>
                  if r_ret m \<noteq> 0
                  then (case vzctl_err (VZCTL_E_SYSTEM H) (errno s2)
                               (''Remounting cgroup '' @ mnt @ '' as slaves failed'') s2 of
                          (e, s3) \<Rightarrow> (Ret (e, head), s3))
                  else (case sys env (AddStrParam mnt) s2 of (a, s3) \<Rightarrow>
                    if r_ret a < 0 then (Ret (VZCTL_E_NOMEM H, head), s3)
                    else (case get_cgroup_name H env ctid c PATH_MAX s3 of (src, s4) \<Rightarrow>
                      (case do_bindmount H env src (take (PATH_MAX - 1) (ve_root @ mnt))
                              (if \<not> cg_is_systemd (subsys (cg_ctl_map ! c))
                               then [MS_BIND, MS_PRIVATE] else [MS_BIND]) s4 of
                         (ret2, s5) \<Rightarrow>
                           if ret2 \<noteq> 0 then (Ret (ret2, head @ [mnt]), s5)
                           else (case create_perctl_symlink H env ve_root mnt s5 of
                                   (ret3, s6) \<Rightarrow>
                                     if ret3 \<noteq> 0 then (Ret (ret3, head @ [mnt]), s6)
                                     else cg_bindmount_cgroup_loop H env ve_root ctid cgroups
                                            is ret3 (head @ [mnt]) s6))))))))"

text \<open>The \<open>list_for_each\<close> at \<open>err\<close>: one \<open>umount\<close> per string of \<open>head\<close>.\<close>

fun umount_each :: "env \<Rightarrow> string \<Rightarrow> string list \<Rightarrow> state \<Rightarrow> state" where
  "umount_each env ve_root [] s = s"
| "umount_each env ve_root (it # rest) s =
     umount_each env ve_root rest
       (snd (sys env (Umount (take (PATH_MAX - 1) (ve_root @ ''/'' @ it))) s))"

text \<open>
  \<open>cg_bindmount_cgroup\<close>: \<open>ve_root\<close> is \<open>h->env_param->fs->ve_root\<close> and \<open>ctid\<close> is
  \<open>EID(h)\<close>.  The result is the return value and the list \<open>head\<close>.
\<close>

definition cg_bindmount_cgroup ::
  "headers \<Rightarrow> env \<Rightarrow> string \<Rightarrow> string \<Rightarrow> string list \<Rightarrow> state
    \<Rightarrow> (int \<times> string list) outcome \<times> state" where
  "cg_bindmount_cgroup H env ve_root ctid head s =
     (case access_and_make_dir env (take (PATH_MAX - 1) (ve_root @ ''/sys'')) s of (f, s1) \<Rightarrow>
        if f
        then (case vzctl_err (VZCTL_E_CREATE_DIR H) (errno s1)
                     (''Can't create '' @ take (PATH_MAX - 1) (ve_root @ ''/sys'')) s1 of
                (e, s2) \<Rightarrow> (Ret (e, head), s2))
        else (case sys env (Mount None (Some (take (PATH_MAX - 1) (ve_root @ ''/sys'')))
                     (Some ''sysfs'') []) s1 of (m, s2) \<Rightarrow>
          if r_ret m \<noteq> 0
          then (case vzctl_err (VZCTL_E_RESOURCE H) (errno s2)
                       (''Can't pre-mount sysfs in '' @ take (PATH_MAX - 1) (ve_root @ ''/sys'')) s2 of
                  (e, s3) \<Rightarrow> (Ret (e, head), s3))
          else (case access_and_make_dir env (take (PATH_MAX - 1) (ve_root @ ''/sys/fs/cgroup'')) s2 of
                  (g, s3) \<Rightarrow>
            if g
            then (case vzctl_err (VZCTL_E_RESOURCE H) (errno s3)
                         (''Can't pre-mount tmpfs in ''
                           @ take (PATH_MAX - 1) (ve_root @ ''/sys/fs/cgroup'')) s3 of
                    (e, s4) \<Rightarrow> (Ret (e, head), s4))
            else (case sys env (Mount None (Some (take (PATH_MAX - 1) (ve_root @ ''/sys/fs/cgroup'')))
                         (Some ''tmpfs'') []) s3 of (n, s4) \<Rightarrow>
              if r_ret n \<noteq> 0
              then (case vzctl_err (VZCTL_E_RESOURCE H) (errno s4)
                           (''Can't pre-mount tmpfs in ''
                             @ take (PATH_MAX - 1) (ve_root @ ''/sys/fs/cgroup'')) s4 of
                      (e, s5) \<Rightarrow> (Ret (e, head), s5))
              else (case get_cgroups H env s4 of ((ret, cgroups), s5) \<Rightarrow>
                if ret \<noteq> 0 then (Ret (ret, head), s5)
                else (case cg_bindmount_cgroup_loop H env ve_root ctid cgroups
                             [0..<length cg_ctl_map] ret head s5 of
                        (UB u, s6) \<Rightarrow> (UB u, s6)
                      | (Ret (ret', head'), s6) \<Rightarrow>
                          if ret' \<noteq> 0
                          then (Ret (ret', head'),
                                snd (sys env (Umount (take (PATH_MAX - 1) (ve_root @ ''/sys'')))
                                  (snd (sys env
                                    (Umount (take (PATH_MAX - 1) (ve_root @ ''/sys/fs/cgroup'')))
                                    (umount_each env ve_root head' s6)))))
                          else (Ret (ret', head'), s6)))))))"

definition bindmount_env_cgroup ::
  "headers \<Rightarrow> env \<Rightarrow> string \<Rightarrow> string \<Rightarrow> state \<Rightarrow> int outcome \<times> state" where
  "bindmount_env_cgroup H env ve_root ctid s =
     (case cg_bindmount_cgroup H env ve_root ctid [] s of
        (UB u, s1) \<Rightarrow> (UB u, s1)
      | (Ret (ret, head), s1) \<Rightarrow> (Ret ret, s1))"

section \<open>Notions the properties are stated with\<close>

subsection \<open>The retry schedule\<close>

text \<open>
  The schedule in the spec's words: the \<open>k\<close>-th sleep (from 0) lasts 10 ms doubled
  \<open>k\<close> times, capped at 500 ms, in microseconds; \<open>spec_total k\<close> is the time slept
  before attempt \<open>k\<close>.
\<close>

definition spec_wait :: "nat \<Rightarrow> nat" where
  "spec_wait k = min (10000 * 2 ^ k) 500000"

definition spec_total :: "nat \<Rightarrow> nat" where
  "spec_total k = sum_list (map spec_wait [0..<k])"

text \<open>
  The history after \<open>k\<close> rounds of a removal and a sleep on the schedule, from the
  history \<open>t\<close>; the answer to attempt \<open>k\<close>; an answer that fails with \<open>EBUSY\<close>.
\<close>

fun retry_hist :: "env \<Rightarrow> int \<Rightarrow> string \<Rightarrow> history \<Rightarrow> nat \<Rightarrow> history" where
  "retry_hist env fd name t 0 = t"
| "retry_hist env fd name t (Suc k) =
     (let h = retry_hist env fd name t k;
          h1 = h @ [(Unlinkat fd name, env h (Unlinkat fd name))]
      in h1 @ [(Usleep (spec_wait k), env h1 (Usleep (spec_wait k)))])"

definition attempt :: "env \<Rightarrow> int \<Rightarrow> string \<Rightarrow> history \<Rightarrow> nat \<Rightarrow> resp" where
  "attempt env fd name t k = env (retry_hist env fd name t k) (Unlinkat fd name)"

definition ebusy :: "resp \<Rightarrow> bool" where
  "ebusy r = (r_ret r < 0 \<and> r_errno r = EBUSY)"

text \<open>The state after one round: a refused removal and the sleep that follows it.\<close>

definition round2 :: "env \<Rightarrow> int \<Rightarrow> string \<Rightarrow> nat \<Rightarrow> state \<Rightarrow> state" where
  "round2 env fd name k s = snd (sys env (Usleep (spec_wait k)) (snd (sys env (Unlinkat fd name) s)))"

text \<open>The sleeps of a history, in microseconds, in order.\<close>

fun sleeps :: "history \<Rightarrow> nat list" where
  "sleeps [] = []"
| "sleeps ((Usleep n, r) # t) = n # sleeps t"
| "sleeps (c # t) = sleeps t"

subsection \<open>Frames and observers\<close>

text \<open>
  \<open>reach P M a s\<close>: state \<open>s\<close> comes after state \<open>a\<close> by calls that all satisfy \<open>P\<close>;
  the cached mount paths of the controllers outside \<open>M\<close> are as they were, and a cached
  mount path or slice name, once set, stays.
\<close>

definition reach :: "(call \<Rightarrow> bool) \<Rightarrow> nat set \<Rightarrow> state \<Rightarrow> state \<Rightarrow> bool" where
  "reach P M a s =
     ((\<exists>e. trace s = trace a @ e \<and> list_all (\<lambda>x. P (fst x)) e)
      \<and> (\<forall>j. j \<notin> M \<longrightarrow> mount_path s j = mount_path a j)
      \<and> (\<forall>j. mount_path a j \<noteq> None \<longrightarrow> mount_path s j = mount_path a j)
      \<and> (slice a \<noteq> None \<longrightarrow> slice s = slice a))"

text \<open>
  The calls of the directory walk of \<open>rm_tree\<close>, the calls of the mount and slice lookup,
  and the calls of the hierarchy lifecycle.
\<close>

fun walk_call :: "call \<Rightarrow> bool" where
  "walk_call (Fdopendir fd) = True"
| "walk_call (Readdir fd) = True"
| "walk_call (Fstatat fd n) = True"
| "walk_call (Openat fd n) = True"
| "walk_call (Close fd) = True"
| "walk_call (Fstat fd) = True"
| "walk_call (Unlinkat fd n) = True"
| "walk_call (Usleep n) = True"
| "walk_call (Rmdir p) = True"
| "walk_call c = False"

fun lookup_call :: "call \<Rightarrow> bool" where
  "lookup_call ProcMounts = True"
| "lookup_call (Xstrdup x) = True"
| "lookup_call (GetGlobalParam n) = True"
| "lookup_call c = False"

text \<open>
  What a history shows of the hierarchy: the directories \<open>rm_tree\<close> was started on (each
  starts with \<open>open(path, O_RDONLY|O_DIRECTORY)\<close>) with the answer, the directories
  \<open>make_dir\<close> was called on with its return value, and the removals.
\<close>

definition opens :: "history \<Rightarrow> (string \<times> resp) list" where
  "opens t = List.map_filter (\<lambda>(c, r). case c of OpenDir p \<Rightarrow> Some (p, r) | _ \<Rightarrow> None) t"

definition makes :: "history \<Rightarrow> (string \<times> int) list" where
  "makes t = List.map_filter (\<lambda>(c, r). case c of MakeDir p \<Rightarrow> Some (p, r_ret r) | _ \<Rightarrow> None) t"

definition removals :: "history \<Rightarrow> call list" where
  "removals t =
     List.map_filter (\<lambda>(c, r). case c of Unlinkat fd n \<Rightarrow> Some c | Rmdir p \<Rightarrow> Some c
                                 | _ \<Rightarrow> None) t"

fun tree_call :: "call \<Rightarrow> bool" where
  "tree_call (OpenDir p) = True"
| "tree_call (MakeDir p) = True"
| "tree_call c = (lookup_call c \<or> walk_call c)"

text \<open>
  The name of the directory of controller \<open>i\<close> no longer changes: its mount path is
  cached, and so is the slice name where the name uses it.
\<close>

definition settled :: "state \<Rightarrow> nat \<Rightarrow> bool" where
  "settled s i = (mount_path s i \<noteq> None
      \<and> (slice s \<noteq> None \<or> cg_is_systemd (subsys (cg_ctl_map ! i)) \<or> is_prvt (cg_ctl_map ! i)))"

subsection \<open>Parameter files and the freezer\<close>

text \<open>
  The calls of a parameter read (with the lookup of the path), and what a history shows
  of sleeping and writing: the arguments of the \<open>sleep\<close> calls and the data of the
  \<open>write\<close> calls.
\<close>

fun read_call :: "call \<Rightarrow> bool" where
  "read_call (OpenRd p) = True"
| "read_call (Read fd n) = True"
| "read_call (Close fd) = True"
| "read_call c = lookup_call c"

definition naps :: "history \<Rightarrow> nat list" where
  "naps t = List.map_filter (\<lambda>(c, r). case c of Sleep n \<Rightarrow> Some n | _ \<Rightarrow> None) t"

definition writes :: "history \<Rightarrow> string list" where
  "writes t = List.map_filter (\<lambda>(c, r). case c of Write fd d \<Rightarrow> Some d | _ \<Rightarrow> None) t"

text \<open>
  One poll of \<open>cg_set_freezer_state\<close> is the read \<open>freezer_read\<close>.  A poll has
  \<open>converged\<close> when the read succeeds and the target state is a prefix of what was read;
  it is \<open>pending\<close> when the read succeeds and it is not.  \<open>next_poll\<close> is the state in
  which the next poll starts: after the read and \<open>sleep(1)\<close>.  \<open>poll_result\<close> is what a
  poll that is not pending returns.
\<close>

definition freezer_read ::
  "headers \<Rightarrow> env \<Rightarrow> string \<Rightarrow> state \<Rightarrow> (int \<times> string) outcome \<times> state" where
  "freezer_read H env ctid s =
     cg_get_param H env (Some ctid) CG_FREEZER ''freezer.state'' (STR_SIZE H) s"

definition converged :: "headers \<Rightarrow> env \<Rightarrow> string \<Rightarrow> string \<Rightarrow> state \<Rightarrow> bool" where
  "converged H env ctid state' s =
     (case fst (freezer_read H env ctid s) of
        UB u \<Rightarrow> False
      | Ret (ret, buf) \<Rightarrow> ret = 0 \<and> prefix state' buf)"

definition pending :: "headers \<Rightarrow> env \<Rightarrow> string \<Rightarrow> string \<Rightarrow> state \<Rightarrow> bool" where
  "pending H env ctid state' s =
     (case fst (freezer_read H env ctid s) of
        UB u \<Rightarrow> False
      | Ret (ret, buf) \<Rightarrow> ret = 0 \<and> \<not> prefix state' buf)"

definition next_poll :: "headers \<Rightarrow> env \<Rightarrow> string \<Rightarrow> state \<Rightarrow> state" where
  "next_poll H env ctid s = snd (sys env (Sleep 1) (snd (freezer_read H env ctid s)))"

definition poll_result ::
  "headers \<Rightarrow> env \<Rightarrow> string \<Rightarrow> state \<Rightarrow> int outcome \<times> state" where
  "poll_result H env ctid s =
     (case freezer_read H env ctid s of
        (UB u, s1) \<Rightarrow> (UB u, s1)
      | (Ret (ret, buf), s1) \<Rightarrow> (Ret ret, s1))"

subsection \<open>Runs of the tree removal\<close>

text \<open>
  The calls \<open>rm_tree\<close> makes between the \<open>fstat\<close> of the root and the final \<open>rmdir\<close>
  of the root: the walk opens, scans and closes directories, removes entries with
  \<open>unlinkat\<close> and sleeps; it calls neither \<open>rmdir\<close> nor \<open>open\<close> on a path.
\<close>

fun scan_call :: "call \<Rightarrow> bool" where
  "scan_call (Fdopendir fd) = True"
| "scan_call (Readdir fd) = True"
| "scan_call (Fstatat fd n) = True"
| "scan_call (Openat fd n) = True"
| "scan_call (Close fd) = True"
| "scan_call (Fstat fd) = True"
| "scan_call (Unlinkat fd n) = True"
| "scan_call (Usleep n) = True"
| "scan_call c = False"

text \<open>The \<open>rmdir\<close> calls of a history, each with its path and its return value.\<close>

definition rmdirs :: "history \<Rightarrow> (string \<times> int) list" where
  "rmdirs t = List.map_filter (\<lambda>(c, r). case c of Rmdir p \<Rightarrow> Some (p, r_ret r) | _ \<Rightarrow> None) t"

text \<open>
  What one run of \<open>rm_tree\<close> on \<open>p\<close> does, from state \<open>a\<close> to state \<open>b\<close> with result
  \<open>res\<close>.  It opens \<open>p\<close>.  If the open fails nothing else is called; the result is 0
  when the directory is missing (\<open>ENOENT\<close>) and -1 otherwise.  If the \<open>fstat\<close> of the
  root fails, the directory is closed and the result is -1.  Otherwise the walk follows,
  and the last call is \<open>rmdir\<close> on \<open>p\<close>; the result is 0 or -1.
\<close>

definition tree_removal :: "env \<Rightarrow> string \<Rightarrow> state \<Rightarrow> int \<Rightarrow> state \<Rightarrow> bool" where
  "tree_removal env p a res b =
     (let opn = env (trace a) (OpenDir p);
          t1 = trace a @ [(OpenDir p, opn)];
          fs = env t1 (Fstat (r_ret opn));
          t2 = t1 @ [(Fstat (r_ret opn), fs)]
      in if r_ret opn = - 1
         then trace b = t1 \<and> res = (if r_errno opn = ENOENT then 0 else - 1)
         else if r_ret fs \<noteq> 0
         then trace b = t2 @ [(Close (r_ret opn), env t2 (Close (r_ret opn)))] \<and> res = - 1
         else (\<exists>w. list_all (\<lambda>x. scan_call (fst x)) w
                    \<and> trace b = t2 @ w @ [(Rmdir p, env (t2 @ w) (Rmdir p))])
              \<and> (res = 0 \<or> res = - 1))"

text \<open>
  \<open>lookups a b\<close>: state \<open>b\<close> comes after state \<open>a\<close> by calls of the mount and slice
  lookup only.  \<open>chain s runs s'\<close>: the calls from \<open>s\<close> to \<open>s'\<close> are the runs of \<open>runs\<close>
  in this order, with lookups only before, between and after them.  A run is the index
  of its controller, the state it starts in, its result and the state it ends in.
\<close>

definition lookups :: "state \<Rightarrow> state \<Rightarrow> bool" where
  "lookups a b = (\<exists>e. trace b = trace a @ e \<and> list_all (\<lambda>x. lookup_call (fst x)) e)"

fun chain :: "state \<Rightarrow> (nat \<times> state \<times> int \<times> state) list \<Rightarrow> state \<Rightarrow> bool" where
  "chain s [] s' = lookups s s'"
| "chain s ((i, a, res, b) # rs) s' = (lookups s a \<and> chain b rs s')"

section \<open>Concrete environments\<close>

text \<open>
  The state of a process that has made no call yet, a stat value, and environments that
  answer every call alike: with success, or with the failure \<open>EBUSY\<close>.
\<close>

definition s0 :: state where
  "s0 = \<lparr>trace = [], errno = 0, mount_path = (\<lambda>i. None), slice = None, logged = []\<rparr>"

definition ok :: resp where
  "ok = Resp 0 0 (Stat 0 0 False) [] [] []"

definition failing :: "int \<Rightarrow> resp" where
  "failing e = Resp (- 1) e (Stat 0 0 False) [] [] []"

definition env_busy :: env where
  "env_busy t c = failing EBUSY"

text \<open>Busy for the first three rounds (six calls), then free; and a refusal with \<open>EPERM\<close>.\<close>

definition env_busy3 :: env where
  "env_busy3 t c = (if length t < 6 then failing EBUSY else ok)"

definition env_eperm :: env where
  "env_eperm t c = failing 1"

text \<open>
  An instance of the header parameters for the examples.  Its bitmap text format covers
  the texts the examples use: bits 1 to 3 are \<open>1-3\<close>, bits 1 and 2 are \<open>1-2\<close>, bits 0 to
  2 are \<open>0-2\<close>, bit 5 is \<open>5\<close>.
\<close>

definition H0 :: headers where
  "H0 = \<lparr>SYSTEMD_CTID_SCOPE_FMT = (\<lambda>ctid. ''machine.slice/'' @ ctid @ ''.scope''),
          STR_SIZE = 512,
          VZCTL_E_SYSTEM = 3,
          VZCTL_E_NOMEM = 4,
          VZCTL_E_RESOURCE = 6,
          VZCTL_E_CREATE_DIR = 49,
          VZCTL_E_CPUMASK = 135,
          vzctl2_bitmap_parse = (\<lambda>str sz. if str = ''1-3'' then Some [14] else None),
          bitmap_snprintf = (\<lambda>sz m. if m = [6] then ''1-2'' else if m = [7] then ''0-2''
                                 else if m = [32] then ''5'' else ''?'')\<rparr>"

text \<open>
  A control file that exists and is empty: \<open>open\<close> returns descriptor 3 and \<open>read\<close>
  returns 0 bytes.
\<close>

definition env_empty_file :: env where
  "env_empty_file t c = (case c of OpenRd p \<Rightarrow> Resp 3 0 (Stat 0 0 False) [] [] [] | _ \<Rightarrow> ok)"

text \<open>
  A directory with the entries \<open>a\<close> and \<open>b\<close>.  \<open>a\<close> is a directory that is gone when it
  is opened; \<open>b\<close> is gone when it is inspected (\<open>fstatat\<close> fails with \<open>ENOENT\<close>) and is
  there again, a directory, when it is opened.  In \<open>env_stale_nomem\<close> the open of \<open>b\<close>
  fails with \<open>ENOMEM\<close> instead.
\<close>

definition env_stale :: env where
  "env_stale t c =
     (case c of
        Readdir fd \<Rightarrow> Resp 0 0 (Stat 0 0 False) [] [''.'', ''..'', ''a'', ''b''] []
      | Fstatat fd n \<Rightarrow> (if n = ''a'' then Resp 0 0 (Stat 1 8 True) [] [] [] else failing ENOENT)
      | Openat fd n \<Rightarrow> (if n = ''a'' then failing ENOENT else Resp 5 0 (Stat 0 0 False) [] [] [])
      | _ \<Rightarrow> ok)"

definition env_stale_nomem :: env where
  "env_stale_nomem t c =
     (case c of
        Readdir fd \<Rightarrow> Resp 0 0 (Stat 0 0 False) [] [''.'', ''..'', ''a'', ''b''] []
      | Fstatat fd n \<Rightarrow> (if n = ''a'' then Resp 0 0 (Stat 1 8 True) [] [] [] else failing ENOENT)
      | Openat fd n \<Rightarrow> (if n = ''a'' then failing ENOENT else failing ENOMEM)
      | _ \<Rightarrow> ok)"

text \<open>
  A cgroup directory (device 1, inode 7, descriptor 3) with one subdirectory \<open>sub\<close>
  (descriptor 4) that is a mount point: another device, the same inode number.  \<open>sub\<close>
  is empty; removing the root fails with \<open>ENOTEMPTY\<close> (39).
\<close>

definition env_mnt :: env where
  "env_mnt t c =
     (case c of
        OpenDir p \<Rightarrow> Resp 3 0 (Stat 0 0 False) [] [] []
      | Fstat fd \<Rightarrow> (if fd = 3 then Resp 0 0 (Stat 1 7 True) [] [] []
                     else Resp 0 0 (Stat 2 7 True) [] [] [])
      | Readdir fd \<Rightarrow> (if fd = 3 then Resp 0 0 (Stat 0 0 False) [] [''.'', ''..'', ''sub''] []
                       else Resp 0 0 (Stat 0 0 False) [] [''.'', ''..''] [])
      | Fstatat fd n \<Rightarrow> Resp 0 0 (Stat 2 7 True) [] [] []
      | Openat fd n \<Rightarrow> Resp 4 0 (Stat 0 0 False) [] [] []
      | Rmdir p \<Rightarrow> failing 39
      | _ \<Rightarrow> ok)"

text \<open>
  A chain of \<open>N\<close> nested directories below a root.  The root has descriptor 10 and the
  directory at depth \<open>k\<close> has descriptor \<open>10 + k\<close>; the inode number of a directory is
  its descriptor, and all are on device 1.  Every directory but the deepest has the single
  entry \<open>d\<close>, a directory, until \<open>unlinkat\<close> has been called on that entry (\<open>gone\<close>);
  opening \<open>..\<close> gives the parent.  The \<open>rmdir\<close> of the root is answered with \<open>rm\<close>.
  \<open>depth_left N m s\<close>: in the history of \<open>s\<close> the entries of the directories at depth
  \<open>m\<close> and deeper have been removed and no others, so that \<open>m\<close> levels are left.
\<close>

definition gone :: "history \<Rightarrow> int \<Rightarrow> bool" where
  "gone t fd = (Unlinkat fd ''d'' \<in> fst ` set t)"

definition env_nest :: "nat \<Rightarrow> resp \<Rightarrow> env" where
  "env_nest N rm t c =
     (case c of
        OpenDir p \<Rightarrow> Resp 10 0 (Stat 0 0 False) [] [] []
      | Fstat fd \<Rightarrow> Resp 0 0 (Stat 1 (nat fd) True) [] [] []
      | Fstatat fd n \<Rightarrow> Resp 0 0 (Stat 1 (nat fd + 1) True) [] [] []
      | Readdir fd \<Rightarrow>
          Resp 0 0 (Stat 0 0 False) []
            (if 10 \<le> fd \<and> fd < 10 + int N \<and> \<not> gone t fd then [''.'', ''..'', ''d'']
             else [''.'', ''..'']) []
      | Openat fd n \<Rightarrow> Resp (if n = ''..'' then fd - 1 else fd + 1) 0 (Stat 0 0 False) [] [] []
      | Rmdir p \<Rightarrow> rm
      | _ \<Rightarrow> ok)"

definition depth_left :: "nat \<Rightarrow> nat \<Rightarrow> state \<Rightarrow> bool" where
  "depth_left N m s =
     (\<forall>x. 10 \<le> x \<and> x < 10 + int N \<longrightarrow> (gone (trace s) x \<longleftrightarrow> 10 + int m \<le> x))"

text \<open>
  A container root where \<open>sysfs\<close> mounts and \<open>tmpfs\<close> does not; and one where both mount
  and /proc/cgroups cannot be opened.
\<close>

definition env_tmpfs_fails :: env where
  "env_tmpfs_fails t c =
     (case c of
        Mount src tgt fs fl \<Rightarrow> (if fs = Some ''tmpfs'' then failing ENOMEM else ok)
      | _ \<Rightarrow> ok)"

definition env_no_proc_cgroups :: env where
  "env_no_proc_cgroups t c = (case c of ProcCgroups \<Rightarrow> failing ENOENT | _ \<Rightarrow> ok)"

text \<open>
  A host with four cgroup hierarchies mounted (the pairs are mount point and mount options
  of the cgroup entries of /proc/mounts) and no \<open>VE_CGROUP_SLICE\<close> configured.  In
  \<open>env_mkdir_fails\<close> every directory is empty and can be removed, and creating the
  directory of the memory controller fails with 49.  In \<open>env_absent\<close> no directory
  exists; in \<open>env_eacces\<close> the directory in the cpu hierarchy cannot be opened
  (\<open>EACCES\<close>, 13) and the others do not exist.
\<close>

definition host_mounts :: "(string \<times> string) list" where
  "host_mounts =
     [(''/sys/fs/cgroup/cpu,cpuacct'', ''rw,cpu,cpuacct''),
      (''/sys/fs/cgroup/net_cls'', ''rw,net_cls''),
      (''/sys/fs/cgroup/memory'', ''rw,memory''),
      (''/sys/fs/cgroup/ve'', ''rw,ve'')]"

definition env_mkdir_fails :: env where
  "env_mkdir_fails t c =
     (case c of
        ProcMounts \<Rightarrow> Resp 0 0 (Stat 0 0 False) [] [] host_mounts
      | GetGlobalParam n \<Rightarrow> failing ENOENT
      | MakeDir p \<Rightarrow> (if p = ''/sys/fs/cgroup/memory/machine.slice/101''
                      then Resp 49 0 (Stat 0 0 False) [] [] [] else ok)
      | OpenDir p \<Rightarrow> Resp 3 0 (Stat 0 0 False) [] [] []
      | Fstat fd \<Rightarrow> Resp 0 0 (Stat 1 7 True) [] [] []
      | _ \<Rightarrow> ok)"

definition env_absent :: env where
  "env_absent t c =
     (case c of
        ProcMounts \<Rightarrow> Resp 0 0 (Stat 0 0 False) [] [] host_mounts
      | GetGlobalParam n \<Rightarrow> failing ENOENT
      | OpenDir p \<Rightarrow> failing ENOENT
      | _ \<Rightarrow> ok)"

definition env_eacces :: env where
  "env_eacces t c =
     (case c of
        ProcMounts \<Rightarrow> Resp 0 0 (Stat 0 0 False) [] [] host_mounts
      | GetGlobalParam n \<Rightarrow> failing ENOENT
      | OpenDir p \<Rightarrow> (if p = ''/sys/fs/cgroup/cpu,cpuacct/machine.slice/101'' then failing 13
                      else failing ENOENT)
      | _ \<Rightarrow> ok)"

text \<open>
  \<open>env_rollback_busy\<close> is \<open>env_mkdir_fails\<close> with every \<open>rmdir\<close> refused (\<open>EBUSY\<close>).
  In \<open>env_fstat_fails\<close> the directory in the cpu hierarchy opens (descriptor 3) and its
  \<open>fstat\<close> fails (\<open>EIO\<close>, 5); the other directories are empty and can be removed.
\<close>

definition env_rollback_busy :: env where
  "env_rollback_busy t c =
     (case c of Rmdir p \<Rightarrow> failing EBUSY | _ \<Rightarrow> env_mkdir_fails t c)"

definition env_fstat_fails :: env where
  "env_fstat_fails t c =
     (case c of
        ProcMounts \<Rightarrow> Resp 0 0 (Stat 0 0 False) [] [] host_mounts
      | GetGlobalParam n \<Rightarrow> failing ENOENT
      | OpenDir p \<Rightarrow> (if p = ''/sys/fs/cgroup/cpu,cpuacct/machine.slice/101''
                      then Resp 3 0 (Stat 0 0 False) [] [] []
                      else Resp 4 0 (Stat 0 0 False) [] [] [])
      | Fstat fd \<Rightarrow> (if fd = 3 then failing 5 else Resp 0 0 (Stat 1 7 True) [] [] [])
      | _ \<Rightarrow> ok)"

text \<open>
  A host with the freezer hierarchy mounted, whose control files open and take every
  write.  \<open>freezer.state\<close> reads \<open>FROZEN\<close> once \<open>d\<close> sleeps have passed since the process
  started (never, when \<open>d\<close> is \<open>None\<close>) and \<open>FREEZING\<close> before.
\<close>

definition freezer_mounts :: "(string \<times> string) list" where
  "freezer_mounts = [(''/sys/fs/cgroup/freezer'', ''rw,freezer'')]"

definition env_freezer :: "nat option \<Rightarrow> env" where
  "env_freezer d t c =
     (case c of
        ProcMounts \<Rightarrow> Resp 0 0 (Stat 0 0 False) [] [] freezer_mounts
      | GetGlobalParam n \<Rightarrow> failing ENOENT
      | OpenRd p \<Rightarrow> Resp 3 0 (Stat 0 0 False) [] [] []
      | OpenWr p \<Rightarrow> Resp 3 0 (Stat 0 0 False) [] [] []
      | Write fd x \<Rightarrow> Resp (int (length x)) 0 (Stat 0 0 False) [] [] []
      | Read fd n \<Rightarrow>
          (if (case d of None \<Rightarrow> False | Some k \<Rightarrow> k \<le> length (naps t))
           then Resp 7 0 (Stat 0 0 False) (''FROZEN'' @ [CHR 0x0A]) [] []
           else Resp 9 0 (Stat 0 0 False) (''FREEZING'' @ [CHR 0x0A]) [] [])
      | _ \<Rightarrow> ok)"

text \<open>
  A host with the cpuset hierarchy mounted, where the kernel permits the CPUs 1 to 3:
  every \<open>cpuset.cpus\<close> reads \<open>1-3\<close>, and the control files take every write.
\<close>

definition cpuset_mounts :: "(string \<times> string) list" where
  "cpuset_mounts = [(''/sys/fs/cgroup/cpuset'', ''rw,cpuset'')]"

definition env_cpuset :: env where
  "env_cpuset t c =
     (case c of
        ProcMounts \<Rightarrow> Resp 0 0 (Stat 0 0 False) [] [] cpuset_mounts
      | GetGlobalParam n \<Rightarrow> failing ENOENT
      | OpenRd p \<Rightarrow> Resp 3 0 (Stat 0 0 False) [] [] []
      | OpenWr p \<Rightarrow> Resp 4 0 (Stat 0 0 False) [] [] []
      | Write fd x \<Rightarrow> Resp (int (length x)) 0 (Stat 0 0 False) [] [] []
      | Read fd n \<Rightarrow> Resp 4 0 (Stat 0 0 False) (''1-3'' @ [CHR 0x0A]) [] []
      | _ \<Rightarrow> ok)"

text \<open>
  A host whose control files can be written and read back: a read returns the data of
  the last write (\<open>0\<close> before any) and a newline.
\<close>

definition env_rate :: env where
  "env_rate t c =
     (case c of
        ProcMounts \<Rightarrow> Resp 0 0 (Stat 0 0 False) [] [] host_mounts
      | GetGlobalParam n \<Rightarrow> failing ENOENT
      | OpenRd p \<Rightarrow> Resp 3 0 (Stat 0 0 False) [] [] []
      | OpenWr p \<Rightarrow> Resp 3 0 (Stat 0 0 False) [] [] []
      | Write fd x \<Rightarrow> Resp (int (length x)) 0 (Stat 0 0 False) [] [] []
      | Read fd n \<Rightarrow>
          (let x = (if writes t = [] then ''0'' else last (writes t)) @ [CHR 0x0A]
           in Resp (int (length x)) 0 (Stat 0 0 False) x [] [])
      | _ \<Rightarrow> ok)"

section \<open>Properties\<close>

subsection \<open>Calls\<close>

lemma trace_sys: "trace (snd (sys env c s)) = trace s @ [(c, env (trace s) c)]"
  by (simp add: sys_def Let_def)

lemma fst_sys: "fst (sys env c s) = env (trace s) c"
  by (simp add: sys_def Let_def)

lemma logged_sys: "logged (snd (sys env c s)) = logged s"
  by (simp add: sys_def Let_def)

lemma errno_sys:
  "errno (snd (sys env c s)) = (if r_ret (env (trace s) c) < 0 then r_errno (env (trace s) c) else errno s)"
  by (simp add: sys_def Let_def)

subsection \<open>rmdir_retry\<close>

lemma spec_wait_le: "spec_wait k \<le> 500000"
  by (simp add: spec_wait_def)

lemma spec_wait_pos: "0 < spec_wait k"
  by (simp add: spec_wait_def)

lemma spec_wait_Suc: "spec_wait (Suc k) = min (2 * spec_wait k) 500000"
  by (simp add: spec_wait_def min_def)

lemma spec_total_Suc: "spec_total (Suc k) = spec_total k + spec_wait k"
  by (simp add: spec_total_def)

lemma spec_total_0: "spec_total 0 = 0"
  by (simp add: spec_total_def)

lemma spec_wait_ge6: "6 \<le> k \<Longrightarrow> spec_wait k = 500000"
proof -
  assume "6 \<le> k"
  then have "(2::nat) ^ 6 \<le> 2 ^ k" by (intro power_increasing) simp_all
  then show ?thesis by (simp add: spec_wait_def min_def)
qed

lemma spec_total_6: "spec_total 6 = 630000"
  by (simp add: spec_total_def spec_wait_def upt_rec)

lemma spec_total_ge6: "6 \<le> k \<Longrightarrow> spec_total k = 630000 + (k - 6) * 500000"
proof (induction k)
  case 0 then show ?case by simp
next
  case (Suc k)
  show ?case
  proof (cases "k = 5")
    case True then show ?thesis using spec_total_6 by simp
  next
    case False
    with Suc.prems have k: "6 \<le> k" by simp
    from Suc.IH [OF k] spec_wait_ge6 [OF k] k show ?thesis
      by (simp add: spec_total_Suc Suc_diff_le)
  qed
qed

lemma spec_total_mono: "j \<le> k \<Longrightarrow> spec_total j \<le> spec_total k"
proof (induction k)
  case 0 then show ?case by simp
next
  case (Suc k) then show ?case
    by (cases "j = Suc k") (simp_all add: spec_total_Suc)
qed

lemma spec_total_64: "spec_total 64 = 29630000"
  using spec_total_ge6 [of 64] by simp

lemma spec_total_65: "spec_total 65 = 30130000"
  using spec_total_ge6 [of 65] by simp

lemma spec_total_lt: "k \<le> 64 \<Longrightarrow> spec_total k < 30000000"
  using spec_total_mono [of k 64] spec_total_64 by simp

lemma spec_total_Suc_lt: "k \<le> 64 \<Longrightarrow> (spec_total (Suc k) < 30000000) = (k < 64)"
proof (cases "k < 64")
  case True
  then show ?thesis using spec_total_lt [of "Suc k"] by simp
next
  case False
  assume "k \<le> 64"
  with False have "k = 64" by simp
  then show ?thesis using spec_total_65 by simp
qed

lemma w32_less: "x < 2 ^ 32 \<Longrightarrow> y < 2 ^ 32 \<Longrightarrow> ((word_of_nat x :: 32 word) < word_of_nat y) = (x < y)"
  by (simp add: word_less_nat_alt unat_of_nat)

lemma word_wait_next:
  "(if maxwait < (word_of_nat (spec_wait k) :: 32 word) * 2 then maxwait
    else word_of_nat (spec_wait k) * 2) = word_of_nat (spec_wait (Suc k))"
proof -
  have a: "(word_of_nat (spec_wait k) :: 32 word) * 2 = word_of_nat (2 * spec_wait k)"
    by simp
  have b: "maxwait = (word_of_nat 500000 :: 32 word)"
    by (simp add: maxwait_def)
  have c: "2 * spec_wait k < 2 ^ 32"
    using spec_wait_le [of k] by simp
  have d: "((word_of_nat 500000 :: 32 word) < word_of_nat (2 * spec_wait k)) = (500000 < 2 * spec_wait k)"
    using c by (subst w32_less) simp_all
  show ?thesis
    unfolding a b d spec_wait_Suc by (simp add: min_def)
qed

lemma word_total_next:
  assumes "k \<le> 64"
  shows "((word_of_nat (spec_total k) :: 32 word) + word_of_nat (spec_wait k) < timeout) = (k < 64)"
proof -
  have a: "(word_of_nat (spec_total k) :: 32 word) + word_of_nat (spec_wait k) = word_of_nat (spec_total (Suc k))"
    by (simp add: spec_total_Suc)
  have b: "timeout = (word_of_nat 30000000 :: 32 word)"
    by (simp add: timeout_def)
  have "spec_total (Suc k) \<le> spec_total 65"
    using assms by (intro spec_total_mono) simp
  then have c: "spec_total (Suc k) < 2 ^ 32"
    using spec_total_65 by simp
  show ?thesis
    unfolding a b using c spec_total_Suc_lt [OF assms] by (subst w32_less) simp_all
qed

lemma unat_wait: "unat (word_of_nat (spec_wait k) :: 32 word) = spec_wait k"
  using spec_wait_le [of k] by (simp add: unat_of_nat)

lemma loop_step:
  assumes "k \<le> 64"
  shows "rmdir_retry_loop env fd name (word_of_nat (spec_total k)) (word_of_nat (spec_wait k)) s =
     (let r = env (trace s) (Unlinkat fd name);
          s1 = snd (sys env (Unlinkat fd name) s);
          s2 = snd (sys env (Usleep (spec_wait k)) s1)
      in if r_ret r = 0 then Some (0, s1)
         else if errno s1 \<noteq> EBUSY
         then Some (vzctl_err (- 1) (errno s1) (''Cannot remove dir '' @ name) s1)
         else if k < 64
         then rmdir_retry_loop env fd name (word_of_nat (spec_total (Suc k)))
                (word_of_nat (spec_wait (Suc k))) s2
         else Some (vzctl_err (- 1) (errno s2) (''Cannot remove dir '' @ name) s2))"
  apply (subst rmdir_retry_loop.simps)
  apply (simp only: Let_def word_wait_next word_total_next [OF assms] unat_wait split_beta fst_sys)
  apply (simp add: spec_total_Suc)
  done

lemma loop_total:
  "k \<le> 64 \<Longrightarrow> \<exists>res. rmdir_retry_loop env fd name (word_of_nat (spec_total k))
      (word_of_nat (spec_wait k)) s = Some res"
proof (induction "64 - k" arbitrary: k s)
  case 0
  then have k: "k = 64" by simp
  show ?case by (subst loop_step) (simp_all add: k Let_def)
next
  case (Suc n)
  then have k: "k < 64" and n: "n = 64 - Suc k" and k': "Suc k \<le> 64" by simp_all
  show ?case
    using Suc.hyps(1) [OF n k'] k by (subst loop_step) (simp_all add: Let_def)
qed

lemma sleeps_append: "sleeps (a @ b) = sleeps a @ sleeps b"
  by (induction a rule: sleeps.induct) simp_all

lemma sleeps_retry_hist:
  "sleeps (retry_hist env fd name t k) = sleeps t @ map spec_wait [0..<k]"
  by (induction k) (simp_all add: Let_def sleeps_append)

lemma trace_round2:
  "trace s = retry_hist env fd name t k \<Longrightarrow>
   trace (round2 env fd name k s) = retry_hist env fd name t (Suc k)"
  by (simp add: round2_def trace_sys Let_def)

lemma logged_round2: "logged (round2 env fd name k s) = logged s"
  by (simp add: round2_def logged_sys)

lemma busy_round:
  assumes "trace s = retry_hist env fd name t k" "ebusy (attempt env fd name t k)" "k \<le> 64"
  shows "rmdir_retry_loop env fd name (word_of_nat (spec_total k)) (word_of_nat (spec_wait k)) s =
     (if k < 64
      then rmdir_retry_loop env fd name (word_of_nat (spec_total (Suc k)))
             (word_of_nat (spec_wait (Suc k))) (round2 env fd name k s)
      else Some (vzctl_err (- 1) (errno (round2 env fd name k s)) (''Cannot remove dir '' @ name)
             (round2 env fd name k s)))"
proof -
  from assms(1,2) have b: "ebusy (env (trace s) (Unlinkat fd name))"
    by (simp add: attempt_def)
  then have "r_ret (env (trace s) (Unlinkat fd name)) \<noteq> 0"
    and "errno (snd (sys env (Unlinkat fd name) s)) = EBUSY"
    by (simp_all add: ebusy_def errno_sys)
  then show ?thesis
    by (subst loop_step [OF assms(3)]) (simp add: Let_def round2_def)
qed

lemma loop_success:
  assumes "n \<le> 64" "\<forall>j<n. ebusy (attempt env fd name t j)" "r_ret (attempt env fd name t n) = 0"
  shows "k \<le> n \<Longrightarrow> trace s = retry_hist env fd name t k \<Longrightarrow>
     \<exists>s'. rmdir_retry_loop env fd name (word_of_nat (spec_total k)) (word_of_nat (spec_wait k)) s
            = Some (0, s')
        \<and> trace s' = retry_hist env fd name t n @ [(Unlinkat fd name, attempt env fd name t n)]
        \<and> logged s' = logged s"
proof (induction "n - k" arbitrary: k s)
  case 0
  then have k: "k = n" by simp
  with assms(1) have k64: "k \<le> 64" by simp
  from 0(3) assms(3) k have "r_ret (env (trace s) (Unlinkat fd name)) = 0"
    by (simp add: attempt_def)
  then show ?case using 0(3) k
    by (subst loop_step [OF k64]) (simp add: Let_def trace_sys logged_sys attempt_def)
next
  case (Suc m)
  then have kn: "k < n" and m: "m = n - Suc k" and k': "Suc k \<le> n" by simp_all
  with assms(1) have k64: "k \<le> 64" and klt: "k < 64" by simp_all
  from assms(2) kn have b: "ebusy (attempt env fd name t k)" by simp
  from Suc.hyps(1) [OF m k' trace_round2 [OF Suc.prems(2)]]
  show ?case
    by (subst busy_round [OF Suc.prems(2) b k64]) (simp add: klt logged_round2)
qed

lemma loop_fatal:
  assumes "n \<le> 64" "\<forall>j<n. ebusy (attempt env fd name t j)"
    "r_ret (attempt env fd name t n) < 0" "r_errno (attempt env fd name t n) \<noteq> EBUSY"
  shows "k \<le> n \<Longrightarrow> trace s = retry_hist env fd name t k \<Longrightarrow>
     \<exists>s'. rmdir_retry_loop env fd name (word_of_nat (spec_total k)) (word_of_nat (spec_wait k)) s
            = Some (- 1, s')
        \<and> trace s' = retry_hist env fd name t n @ [(Unlinkat fd name, attempt env fd name t n)]
        \<and> logged s' = logged s @ [(- 1, r_errno (attempt env fd name t n), ''Cannot remove dir '' @ name)]"
proof (induction "n - k" arbitrary: k s)
  case 0
  then have k: "k = n" by simp
  with assms(1) have k64: "k \<le> 64" by simp
  from 0(3) assms(3,4) k have "r_ret (env (trace s) (Unlinkat fd name)) < 0"
    "r_errno (env (trace s) (Unlinkat fd name)) \<noteq> EBUSY"
    by (simp_all add: attempt_def)
  then show ?case using 0(3) k
    by (subst loop_step [OF k64])
       (simp add: Let_def trace_sys logged_sys errno_sys attempt_def vzctl_err_def logger_def)
next
  case (Suc m)
  then have kn: "k < n" and m: "m = n - Suc k" and k': "Suc k \<le> n" by simp_all
  with assms(1) have k64: "k \<le> 64" and klt: "k < 64" by simp_all
  from assms(2) kn have b: "ebusy (attempt env fd name t k)" by simp
  from Suc.hyps(1) [OF m k' trace_round2 [OF Suc.prems(2)]]
  show ?case
    by (subst busy_round [OF Suc.prems(2) b k64]) (simp add: klt logged_round2)
qed

lemma loop_exhausted:
  assumes "\<forall>j<65. ebusy (attempt env fd name t j)"
  shows "k \<le> 64 \<Longrightarrow> trace s = retry_hist env fd name t k \<Longrightarrow>
     \<exists>s' eno. rmdir_retry_loop env fd name (word_of_nat (spec_total k)) (word_of_nat (spec_wait k)) s
            = Some (- 1, s')
        \<and> trace s' = retry_hist env fd name t 65
        \<and> logged s' = logged s @ [(- 1, eno, ''Cannot remove dir '' @ name)]"
proof (induction "64 - k" arbitrary: k s)
  case 0
  then have k: "k = 64" by simp
  from assms k have b: "ebusy (attempt env fd name t k)" by simp
  have "trace (round2 env fd name k s) = retry_hist env fd name t 65"
    using trace_round2 [OF 0(3)] k by simp
  then show ?case
    by (subst busy_round [OF 0(3) b]) (simp_all add: k vzctl_err_def logger_def logged_round2)
next
  case (Suc m)
  then have klt: "k < 64" and m: "m = 64 - Suc k" and k': "Suc k \<le> 64" by simp_all
  from assms klt have b: "ebusy (attempt env fd name t k)" by simp
  from Suc.hyps(1) [OF m k' trace_round2 [OF Suc.prems(2)]]
  show ?case
    by (subst busy_round [OF Suc.prems(2) b Suc.prems(1)]) (simp add: klt logged_round2)
qed

lemma rmdir_retry_start:
  "rmdir_retry env fd name s =
     rmdir_retry_loop env fd name (word_of_nat (spec_total 0)) (word_of_nat (spec_wait 0)) s"
  by (simp add: rmdir_retry_def spec_total_def spec_wait_def)

text \<open>
  Claim C3.  \<open>rmdir_retry\<close> always returns.  When the removal is refused with \<open>EBUSY\<close> it
  sleeps on the schedule 10 ms, 20 ms, 40 ms, ... capped at 500 ms, and tries again while
  the time slept is below 30 s.  If attempt \<open>n\<close> succeeds after \<open>n\<close> busy attempts it
  returns 0, having slept exactly the first \<open>n\<close> sleeps of the schedule, less than 30 s
  in all, and reports nothing.  If attempt \<open>n\<close> fails with another error it returns -1 at
  once, with no sleep after that attempt, and reports the failure.  If the directory is
  busy at every attempt it gives up after the 65th: it has then slept the first 65 sleeps
  of the schedule, 30.13 s, which is the first point at which the time slept is not below
  30 s; it returns -1 and reports the failure.
\<close>

theorem rmdir_retry_policy:
  "(\<exists>r s'. rmdir_retry env fd name s = Some (r, s'))
   \<and> (\<forall>n. n \<le> 64 \<and> (\<forall>j<n. ebusy (attempt env fd name (trace s) j))
            \<and> r_ret (attempt env fd name (trace s) n) = 0 \<longrightarrow>
        (\<exists>s'. rmdir_retry env fd name s = Some (0, s')
           \<and> trace s' = retry_hist env fd name (trace s) n
                 @ [(Unlinkat fd name, attempt env fd name (trace s) n)]
           \<and> sleeps (trace s') = sleeps (trace s) @ map spec_wait [0..<n]
           \<and> spec_total n < 30000000
           \<and> logged s' = logged s))
   \<and> (\<forall>n. n \<le> 64 \<and> (\<forall>j<n. ebusy (attempt env fd name (trace s) j))
            \<and> r_ret (attempt env fd name (trace s) n) < 0
            \<and> r_errno (attempt env fd name (trace s) n) \<noteq> EBUSY \<longrightarrow>
        (\<exists>s'. rmdir_retry env fd name s = Some (- 1, s')
           \<and> trace s' = retry_hist env fd name (trace s) n
                 @ [(Unlinkat fd name, attempt env fd name (trace s) n)]
           \<and> sleeps (trace s') = sleeps (trace s) @ map spec_wait [0..<n]
           \<and> logged s' = logged s
                 @ [(- 1, r_errno (attempt env fd name (trace s) n), ''Cannot remove dir '' @ name)]))
   \<and> ((\<forall>j<65. ebusy (attempt env fd name (trace s) j)) \<longrightarrow>
        (\<exists>s' eno. rmdir_retry env fd name s = Some (- 1, s')
           \<and> trace s' = retry_hist env fd name (trace s) 65
           \<and> sleeps (trace s') = sleeps (trace s) @ map spec_wait [0..<65]
           \<and> spec_total 64 < 30000000 \<and> 30000000 \<le> spec_total 65
           \<and> logged s' = logged s @ [(- 1, eno, ''Cannot remove dir '' @ name)]))"
proof (intro conjI allI impI)
  show "\<exists>r s'. rmdir_retry env fd name s = Some (r, s')"
    using loop_total [of 0 env fd name s] by (auto simp: rmdir_retry_start)
next
  fix n
  assume a: "n \<le> 64 \<and> (\<forall>j<n. ebusy (attempt env fd name (trace s) j))
            \<and> r_ret (attempt env fd name (trace s) n) = 0"
  then have "\<exists>s'. rmdir_retry_loop env fd name (word_of_nat (spec_total 0))
        (word_of_nat (spec_wait 0)) s = Some (0, s')
      \<and> trace s' = retry_hist env fd name (trace s) n
            @ [(Unlinkat fd name, attempt env fd name (trace s) n)]
      \<and> logged s' = logged s"
    by (intro loop_success) simp_all
  then obtain s' where s': "rmdir_retry env fd name s = Some (0, s')"
      "trace s' = retry_hist env fd name (trace s) n
            @ [(Unlinkat fd name, attempt env fd name (trace s) n)]"
      "logged s' = logged s"
    by (auto simp: rmdir_retry_start)
  have "sleeps (trace s') = sleeps (trace s) @ map spec_wait [0..<n]"
    by (simp add: s'(2) sleeps_append sleeps_retry_hist)
  with s' a spec_total_lt [of n]
  show "\<exists>s'. rmdir_retry env fd name s = Some (0, s')
           \<and> trace s' = retry_hist env fd name (trace s) n
                 @ [(Unlinkat fd name, attempt env fd name (trace s) n)]
           \<and> sleeps (trace s') = sleeps (trace s) @ map spec_wait [0..<n]
           \<and> spec_total n < 30000000
           \<and> logged s' = logged s"
    by simp
next
  fix n
  assume a: "n \<le> 64 \<and> (\<forall>j<n. ebusy (attempt env fd name (trace s) j))
            \<and> r_ret (attempt env fd name (trace s) n) < 0
            \<and> r_errno (attempt env fd name (trace s) n) \<noteq> EBUSY"
  then have "\<exists>s'. rmdir_retry_loop env fd name (word_of_nat (spec_total 0))
        (word_of_nat (spec_wait 0)) s = Some (- 1, s')
      \<and> trace s' = retry_hist env fd name (trace s) n
            @ [(Unlinkat fd name, attempt env fd name (trace s) n)]
      \<and> logged s' = logged s
            @ [(- 1, r_errno (attempt env fd name (trace s) n), ''Cannot remove dir '' @ name)]"
    by (intro loop_fatal) simp_all
  then obtain s' where s': "rmdir_retry env fd name s = Some (- 1, s')"
      "trace s' = retry_hist env fd name (trace s) n
            @ [(Unlinkat fd name, attempt env fd name (trace s) n)]"
      "logged s' = logged s
            @ [(- 1, r_errno (attempt env fd name (trace s) n), ''Cannot remove dir '' @ name)]"
    by (auto simp: rmdir_retry_start)
  have "sleeps (trace s') = sleeps (trace s) @ map spec_wait [0..<n]"
    by (simp add: s'(2) sleeps_append sleeps_retry_hist)
  with s'
  show "\<exists>s'. rmdir_retry env fd name s = Some (- 1, s')
           \<and> trace s' = retry_hist env fd name (trace s) n
                 @ [(Unlinkat fd name, attempt env fd name (trace s) n)]
           \<and> sleeps (trace s') = sleeps (trace s) @ map spec_wait [0..<n]
           \<and> logged s' = logged s
                 @ [(- 1, r_errno (attempt env fd name (trace s) n), ''Cannot remove dir '' @ name)]"
    by simp
next
  assume a: "\<forall>j<65. ebusy (attempt env fd name (trace s) j)"
  then have "\<exists>s' eno. rmdir_retry_loop env fd name (word_of_nat (spec_total 0))
        (word_of_nat (spec_wait 0)) s = Some (- 1, s')
      \<and> trace s' = retry_hist env fd name (trace s) 65
      \<and> logged s' = logged s @ [(- 1, eno, ''Cannot remove dir '' @ name)]"
    by (intro loop_exhausted) simp_all
  then obtain s' eno where s': "rmdir_retry env fd name s = Some (- 1, s')"
      "trace s' = retry_hist env fd name (trace s) 65"
      "logged s' = logged s @ [(- 1, eno, ''Cannot remove dir '' @ name)]"
    by (auto simp: rmdir_retry_start)
  have "sleeps (trace s') = sleeps (trace s) @ map spec_wait [0..<65]"
    by (simp only: s'(2) sleeps_retry_hist)
  with s' spec_total_64 spec_total_65
  show "\<exists>s' eno. rmdir_retry env fd name s = Some (- 1, s')
           \<and> trace s' = retry_hist env fd name (trace s) 65
           \<and> sleeps (trace s') = sleeps (trace s) @ map spec_wait [0..<65]
           \<and> spec_total 64 < 30000000 \<and> 30000000 \<le> spec_total 65
           \<and> logged s' = logged s @ [(- 1, eno, ''Cannot remove dir '' @ name)]"
    by auto
qed

lemma length_retry_hist: "length (retry_hist env fd name t k) = length t + 2 * k"
  by (induction k) (simp_all add: Let_def)

theorem rmdir_retry_policy_witness:
  "(\<exists>s'. rmdir_retry env_busy 3 ''ct'' s0 = Some (- 1, s')
        \<and> sum_list (sleeps (trace s')) = 30130000)
   \<and> (\<exists>s'. rmdir_retry env_busy3 3 ''ct'' s0 = Some (0, s')
        \<and> sleeps (trace s') = [10000, 20000, 40000])
   \<and> (\<exists>s'. rmdir_retry env_eperm 3 ''ct'' s0 = Some (- 1, s')
        \<and> sleeps (trace s') = [] \<and> logged s' = [(- 1, 1, ''Cannot remove dir ct'')])"
proof (intro conjI)
  have "\<forall>j<65. ebusy (attempt env_busy 3 ''ct'' (trace s0) j)"
    by (simp add: attempt_def env_busy_def ebusy_def failing_def)
  with rmdir_retry_policy [of env_busy 3 "''ct''" s0]
  obtain s' where "rmdir_retry env_busy 3 ''ct'' s0 = Some (- 1, s')"
    "sleeps (trace s') = sleeps (trace s0) @ map spec_wait [0..<65]"
    by blast
  moreover have "sum_list (map spec_wait [0..<65]) = 30130000"
    using spec_total_65 by (simp only: spec_total_def)
  ultimately show "\<exists>s'. rmdir_retry env_busy 3 ''ct'' s0 = Some (- 1, s')
        \<and> sum_list (sleeps (trace s')) = 30130000"
    by (simp add: s0_def)
next
  have "(3::nat) \<le> 64 \<and> (\<forall>j<3. ebusy (attempt env_busy3 3 ''ct'' (trace s0) j))
      \<and> r_ret (attempt env_busy3 3 ''ct'' (trace s0) 3) = 0"
    by (simp add: attempt_def env_busy3_def ebusy_def failing_def ok_def length_retry_hist s0_def)
  with rmdir_retry_policy [of env_busy3 3 "''ct''" s0]
  obtain s' where "rmdir_retry env_busy3 3 ''ct'' s0 = Some (0, s')"
    "sleeps (trace s') = sleeps (trace s0) @ map spec_wait [0..<3]"
    by blast
  then show "\<exists>s'. rmdir_retry env_busy3 3 ''ct'' s0 = Some (0, s')
        \<and> sleeps (trace s') = [10000, 20000, 40000]"
    by (simp add: s0_def spec_wait_def upt_rec)
next
  have "(0::nat) \<le> 64 \<and> (\<forall>j<0. ebusy (attempt env_eperm 3 ''ct'' (trace s0) j))
      \<and> r_ret (attempt env_eperm 3 ''ct'' (trace s0) 0) < 0
      \<and> r_errno (attempt env_eperm 3 ''ct'' (trace s0) 0) \<noteq> EBUSY"
    by (simp add: attempt_def env_eperm_def failing_def EBUSY_def)
  with rmdir_retry_policy [of env_eperm 3 "''ct''" s0]
  obtain s' where "rmdir_retry env_eperm 3 ''ct'' s0 = Some (- 1, s')"
    "sleeps (trace s') = sleeps (trace s0) @ map spec_wait [0..<0]"
    "logged s' = logged s0
        @ [(- 1, r_errno (attempt env_eperm 3 ''ct'' (trace s0) 0), ''Cannot remove dir '' @ ''ct'')]"
    by blast
  then show "\<exists>s'. rmdir_retry env_eperm 3 ''ct'' s0 = Some (- 1, s')
        \<and> sleeps (trace s') = [] \<and> logged s' = [(- 1, 1, ''Cannot remove dir ct'')]"
    by (simp add: s0_def attempt_def env_eperm_def failing_def)
qed

subsection \<open>cg_read\<close>

text \<open>
  Claim C9, at the input where the code departs from it: a control file whose \<open>read\<close>
  returns 0 bytes.  With \<open>r = 0\<close> the test \<open>out[r-1] == '\n'\<close> reads \<open>out[-1]\<close>, the byte
  before the buffer.
\<close>

theorem cg_read_empty_file:
  "fst (cg_read env_empty_file ''/sys/fs/cgroup/cpu/cpu.rate'' 32 s0) = UB (OutOfBounds (- 1))"
  by (simp add: cg_read_def sys_def env_empty_file_def ok_def in_bounds_def Let_def s0_def)

subsection \<open>goto_next_dir\<close>

text \<open>
  Claim C10, at the input where the code departs from it.  The \<open>fstatat\<close> of entry \<open>b\<close>
  fails with \<open>ENOENT\<close>.  The entry is not skipped: the test \<open>S_ISDIR(st.st_mode)\<close> is made
  on what the \<open>fstatat\<close> of entry \<open>a\<close> left in \<open>st\<close>, and \<open>b\<close> is opened.  When that open
  succeeds the walk descends into \<open>b\<close> (return value 0, \<open>*fd\<close> is the new descriptor 5);
  when it fails with \<open>ENOMEM\<close> the walk is aborted with -1 and the failure is reported.
\<close>

theorem goto_next_dir_stale_stat:
  "fst (goto_next_dir env_stale (- 1) 3 [] PATH_MAX s0) = (0, 3, 5, ''b'')
   \<and> map fst (trace (snd (goto_next_dir env_stale (- 1) 3 [] PATH_MAX s0)))
       = [Fdopendir 3, Readdir 3, Fstatat 3 ''a'', Openat 3 ''a'', Fstatat 3 ''b'', Openat 3 ''b'']
   \<and> fst (goto_next_dir env_stale_nomem (- 1) 3 [] PATH_MAX s0) = (- 1, - 1, 3, [])
   \<and> logged (snd (goto_next_dir env_stale_nomem (- 1) 3 [] PATH_MAX s0))
       = [(- 1, ENOMEM, ''openat b'')]"
  by (simp add: goto_next_dir_def sys_def env_stale_def env_stale_nomem_def ok_def failing_def
        vzctl_err_def logger_def Let_def s0_def ENOENT_def ENOMEM_def PATH_MAX_def)

subsection \<open>rm_tree\<close>

text \<open>
  Claim C2 as stated fails: the walk stops in \<open>sub\<close>, whose device differs from the
  root's, because its inode number is the root's.  \<open>rm_tree\<close> returns 0; \<open>sub\<close> was never
  removed and the final \<open>rmdir\<close> of the root failed.
\<close>

theorem rm_tree_identity_counterexample:
  "map_option fst (rm_tree env_mnt ''/cg/ct'' s0) = Some 0
   \<and> map_option (map fst \<circ> trace \<circ> snd) (rm_tree env_mnt ''/cg/ct'' s0) =
       Some [OpenDir ''/cg/ct'', Fstat 3, Fdopendir 3, Readdir 3, Fstatat 3 ''sub'',
             Openat 3 ''sub'', Fdopendir 4, Readdir 4, Fstat 4, Close 4, Close 3,
             Rmdir ''/cg/ct'']
   \<and> r_stat (env_mnt [] (Fstat 3)) = Stat 1 7 True
   \<and> r_stat (env_mnt [] (Fstat 4)) = Stat 2 7 True
   \<and> r_ret (env_mnt [] (Rmdir ''/cg/ct'')) = - 1"
  by (simp add: rm_tree_def rm_tree_loop.simps rm_tree_body_def goto_next_dir_def sys_def
        env_mnt_def ok_def failing_def Let_def s0_def ENOENT_def PATH_MAX_def)

lemma gone_append: "gone (t @ u) fd = (gone t fd \<or> gone u fd)"
  by (auto simp: gone_def)

lemma gone_Cons: "gone (x # u) fd = (fst x = Unlinkat fd ''d'' \<or> gone u fd)"
  by (auto simp: gone_def)

lemma gone_Nil: "gone [] fd = False"
  by (simp add: gone_def)

lemma removals_append: "removals (t @ u) = removals t @ removals u"
  by (simp add: removals_def List.map_filter_def)

lemma removals_Cons:
  "removals (x # u) = (case fst x of Unlinkat fd n \<Rightarrow> [fst x] | Rmdir p \<Rightarrow> [fst x] | _ \<Rightarrow> []) @ removals u"
  by (cases x) (simp add: removals_def List.map_filter_def split: call.splits)

lemma removals_Nil: "removals [] = []"
  by (simp add: removals_def List.map_filter_def)

lemmas nest_simps = rm_tree_body_def goto_next_dir_def sys_def env_nest_def ok_def Let_def
  gone_append gone_Cons gone_Nil removals_append removals_Cons removals_Nil PATH_MAX_def

lemma loop_continue:
  "rm_tree_body env st parentfd fd name level s = Some ((Continue, r, p', f', n', l'), s') \<Longrightarrow> 0 \<le> l'
    \<Longrightarrow> rm_tree_loop env st parentfd fd name level s = rm_tree_loop env st p' f' n' l' s'"
  by (subst rm_tree_loop.simps) simp

lemma loop_break:
  "rm_tree_body env st parentfd fd name level s = Some ((Break, r, p', f', n', l'), s')
    \<Longrightarrow> rm_tree_loop env st parentfd fd name level s = Some ((r, p', f'), s')"
  by (subst rm_tree_loop.simps) simp

lemma body_descend:
  assumes "10 \<le> fd" "fd < 10 + int N" "\<not> gone (trace s) fd"
  shows "\<exists>s1. rm_tree_body (env_nest N rm) st pfd fd name level s
            = Some ((Continue, 0, fd, fd + 1, ''d'', level + 1), s1)
          \<and> (\<forall>x. gone (trace s1) x = gone (trace s) x)
          \<and> removals (trace s1) = removals (trace s)"
  using assms
  by (auto simp: nest_simps)

lemma body_stop:
  assumes "\<not> (0 < int N \<and> \<not> gone (trace s) 10)"
  shows "\<exists>s1. rm_tree_body (env_nest N rm) (Stat 1 10 True) pfd 10 name level s
            = Some ((Break, 0, pfd, 10, name, level), s1)
          \<and> removals (trace s1) = removals (trace s)"
  using assms
  by (auto simp: nest_simps)

lemma body_ascend_plain:
  assumes "\<not> (fd < 10 + int N \<and> \<not> gone (trace s) fd)" "10 < fd" "10 \<le> pfd"
  shows "\<exists>s1. rm_tree_body (env_nest N rm) (Stat 1 10 True) pfd fd [] level s
            = Some ((Continue, 0, pfd - 1, pfd, [], level - 1), s1)
          \<and> (\<forall>x. gone (trace s1) x = gone (trace s) x)
          \<and> removals (trace s1) = removals (trace s)"
  using assms
  by (auto simp: nest_simps)

lemma body_ascend_remove:
  assumes "\<not> (fd < 10 + int N \<and> \<not> gone (trace s) fd)" "10 < fd" "10 \<le> pfd"
  shows "\<exists>s1. rm_tree_body (env_nest N rm) (Stat 1 10 True) pfd fd ''d'' level s
            = Some ((Continue, 0, pfd - 1, pfd, [], level - 1), s1)
          \<and> (\<forall>x. gone (trace s1) x = (gone (trace s) x \<or> x = pfd))
          \<and> removals (trace s1) = removals (trace s) @ [Unlinkat pfd ''d'']"
  using assms
  by (auto simp: nest_simps rmdir_retry_def rmdir_retry_loop.simps)

lemma unlinks_Suc:
  "map (\<lambda>j. Unlinkat (9 + int j) ''d'') (rev [1..<Suc (Suc m)])
     = Unlinkat (10 + int m) ''d'' # map (\<lambda>j. Unlinkat (9 + int j) ''d'') (rev [1..<Suc m])"
  by simp

lemma walk_nest:
  "m \<le> N \<Longrightarrow> k \<le> m \<Longrightarrow> depth_left N m s
    \<Longrightarrow> k < m \<or> name = [] \<or> name = ''d'' \<and> 1 \<le> k
    \<Longrightarrow> 1 \<le> k \<longrightarrow> pfd = 9 + int k
    \<Longrightarrow> \<exists>pf s'. rm_tree_loop (env_nest N rm) (Stat 1 10 True) pfd (10 + int k) name (int k) s
                   = Some ((0, pf, 10), s')
              \<and> removals (trace s') = removals (trace s)
                   @ map (\<lambda>j. Unlinkat (9 + int j) ''d'') (rev [1..<Suc m])"
proof (induction m arbitrary: k name pfd s)
  case 0
  then have k: "k = 0" by simp
  have "\<not> (0 < int N \<and> \<not> gone (trace s) 10)"
    using "0.prems"(3) by (auto simp: depth_left_def)
  from body_stop [OF this, of rm pfd name 0] obtain s1 where
    b: "rm_tree_body (env_nest N rm) (Stat 1 10 True) pfd 10 name 0 s
          = Some ((Break, 0, pfd, 10, name, 0), s1)"
      "removals (trace s1) = removals (trace s)"
    by blast
  from loop_break [OF b(1)] b(2) show ?case
    by (simp add: k)
next
  case (Suc m)
  note N = Suc.prems(1)
  have top: "\<exists>pf s'. rm_tree_loop (env_nest N rm) (Stat 1 10 True) (9 + int (Suc m))
                        (10 + int (Suc m)) ''d'' (int (Suc m)) s
                   = Some ((0, pf, 10), s')
              \<and> removals (trace s') = removals (trace s)
                   @ map (\<lambda>j. Unlinkat (9 + int j) ''d'') (rev [1..<Suc (Suc m)])"
    if d: "depth_left N (Suc m) s" for s
  proof -
    have c: "\<not> (10 + int (Suc m) < 10 + int N \<and> \<not> gone (trace s) (10 + int (Suc m)))"
      using d by (auto simp: depth_left_def)
    from body_ascend_remove [OF c, of "9 + int (Suc m)" rm "int (Suc m)"] obtain s1 where
      b: "rm_tree_body (env_nest N rm) (Stat 1 10 True) (9 + int (Suc m)) (10 + int (Suc m)) ''d''
            (int (Suc m)) s
          = Some ((Continue, 0, 9 + int (Suc m) - 1, 9 + int (Suc m), [], int (Suc m) - 1), s1)"
        "\<forall>x. gone (trace s1) x = (gone (trace s) x \<or> x = 9 + int (Suc m))"
        "removals (trace s1) = removals (trace s) @ [Unlinkat (9 + int (Suc m)) ''d'']"
      by auto
    have d1: "depth_left N m s1"
      using d b(2) N by (auto simp: depth_left_def)
    have e: "9 + int (Suc m) - 1 = 9 + int m" "9 + int (Suc m) = 10 + int m"
      "int (Suc m) - 1 = int m"
      by simp_all
    from loop_continue [OF b(1)] have l:
      "rm_tree_loop (env_nest N rm) (Stat 1 10 True) (9 + int (Suc m)) (10 + int (Suc m)) ''d''
            (int (Suc m)) s
        = rm_tree_loop (env_nest N rm) (Stat 1 10 True) (9 + int m) (10 + int m) [] (int m) s1"
      by (simp only: e) simp
    from Suc.IH [of m s1 "[]" "9 + int m"] d1 N obtain pf s' where
      ih: "rm_tree_loop (env_nest N rm) (Stat 1 10 True) (9 + int m) (10 + int m) [] (int m) s1
             = Some ((0, pf, 10), s')"
        "removals (trace s') = removals (trace s1)
             @ map (\<lambda>j. Unlinkat (9 + int j) ''d'') (rev [1..<Suc m])"
      by auto
    show ?thesis
      using l ih b(3) by (simp only: unlinks_Suc e) simp
  qed
  have below: "\<exists>pf s'. rm_tree_loop (env_nest N rm) (Stat 1 10 True) pfd (10 + int k) name (int k) s
                   = Some ((0, pf, 10), s')
              \<and> removals (trace s') = removals (trace s)
                   @ map (\<lambda>j. Unlinkat (9 + int j) ''d'') (rev [1..<Suc (Suc m)])"
    if "k < Suc m" "depth_left N (Suc m) s" for k pfd name s
    using that
  proof (induction "m - k" arbitrary: k pfd name s)
    case 0
    then have k: "k = m" by simp
    have c: "10 \<le> 10 + int k" "10 + int k < 10 + int N" "\<not> gone (trace s) (10 + int k)"
      using "0.prems" N by (auto simp: depth_left_def)
    from body_descend [OF c, of rm "Stat 1 10 True" pfd name "int k"] obtain s1 where
      b: "rm_tree_body (env_nest N rm) (Stat 1 10 True) pfd (10 + int k) name (int k) s
            = Some ((Continue, 0, 10 + int k, 10 + int k + 1, ''d'', int k + 1), s1)"
        "\<forall>x. gone (trace s1) x = gone (trace s) x"
        "removals (trace s1) = removals (trace s)"
      by blast
    have d1: "depth_left N (Suc m) s1"
      using "0.prems"(2) b(2) by (simp add: depth_left_def)
    have e: "10 + int k = 9 + int (Suc m)" "10 + int k + 1 = 10 + int (Suc m)"
      "int k + 1 = int (Suc m)"
      by (simp_all add: k)
    from loop_continue [OF b(1)] have
      l: "rm_tree_loop (env_nest N rm) (Stat 1 10 True) pfd (10 + int k) name (int k) s
        = rm_tree_loop (env_nest N rm) (Stat 1 10 True) (9 + int (Suc m)) (10 + int (Suc m)) ''d''
            (int (Suc m)) s1"
      by (simp add: k add.commute)
    from top [OF d1] l b(3) show ?case
      by simp
  next
    case (Suc d)
    then have k: "k < m" by simp
    have c: "10 \<le> 10 + int k" "10 + int k < 10 + int N" "\<not> gone (trace s) (10 + int k)"
      using Suc.prems N by (auto simp: depth_left_def)
    from body_descend [OF c, of rm "Stat 1 10 True" pfd name "int k"] obtain s1 where
      b: "rm_tree_body (env_nest N rm) (Stat 1 10 True) pfd (10 + int k) name (int k) s
            = Some ((Continue, 0, 10 + int k, 10 + int k + 1, ''d'', int k + 1), s1)"
        "\<forall>x. gone (trace s1) x = gone (trace s) x"
        "removals (trace s1) = removals (trace s)"
      by blast
    have d1: "depth_left N (Suc m) s1"
      using Suc.prems(2) b(2) by (simp add: depth_left_def)
    have e: "10 + int k + 1 = 10 + int (Suc k)" "int k + 1 = int (Suc k)"
      by simp_all
    from loop_continue [OF b(1)] have
      l: "rm_tree_loop (env_nest N rm) (Stat 1 10 True) pfd (10 + int k) name (int k) s
        = rm_tree_loop (env_nest N rm) (Stat 1 10 True) (10 + int k) (10 + int (Suc k)) ''d''
            (int (Suc k)) s1"
      by (simp add: add.commute)
    have "d = m - Suc k" using Suc.hyps(2) by simp
    from Suc.hyps(1) [OF this _ d1, of "10 + int k" "''d''"] k l b(3) show ?case
      by simp
  qed
  show ?case
  proof (cases "k < Suc m")
    case True
    from below [OF True Suc.prems(3)] show ?thesis .
  next
    case False
    with Suc.prems(2) have k: "k = Suc m" by simp
    with Suc.prems(5) have pfd: "pfd = 9 + int (Suc m)" by simp
    from Suc.prems(4) k consider (plain) "name = []" | (rem) "name = ''d''"
      by auto
    then show ?thesis
    proof cases
      case rem
      from top [OF Suc.prems(3)] show ?thesis
        by (simp add: k pfd rem)
    next
      case plain
      have c: "\<not> (10 + int (Suc m) < 10 + int N \<and> \<not> gone (trace s) (10 + int (Suc m)))"
        using Suc.prems(3) by (auto simp: depth_left_def)
      from body_ascend_plain [OF c, of "9 + int (Suc m)" rm "int (Suc m)"] obtain s1 where
        b: "rm_tree_body (env_nest N rm) (Stat 1 10 True) (9 + int (Suc m)) (10 + int (Suc m)) []
              (int (Suc m)) s
            = Some ((Continue, 0, 9 + int (Suc m) - 1, 9 + int (Suc m), [], int (Suc m) - 1), s1)"
          "\<forall>x. gone (trace s1) x = gone (trace s) x"
          "removals (trace s1) = removals (trace s)"
        by auto
      have d1: "depth_left N (Suc m) s1"
        using Suc.prems(3) b(2) by (simp add: depth_left_def)
      have e: "9 + int (Suc m) - 1 = 9 + int m" "9 + int (Suc m) = 10 + int m"
        "int (Suc m) - 1 = int m"
        by simp_all
      from loop_continue [OF b(1)] have l:
        "rm_tree_loop (env_nest N rm) (Stat 1 10 True) (9 + int (Suc m)) (10 + int (Suc m)) []
              (int (Suc m)) s
          = rm_tree_loop (env_nest N rm) (Stat 1 10 True) (9 + int m) (10 + int m) [] (int m) s1"
        by (simp only: e) simp
      from below [of m s1 "9 + int m" "[]"] d1 l b(3) show ?thesis
        by (simp add: k pfd plain)
    qed
  qed
qed

lemma rm_tree_nest:
  assumes d: "depth_left N N s"
  shows "\<exists>s' t. rm_tree (env_nest N rm) p s = Some (0, s')
      \<and> trace s' = t @ [(Rmdir p, rm)]
      \<and> removals (trace s') = removals (trace s)
           @ map (\<lambda>j. Unlinkat (9 + int j) ''d'') (rev [1..<Suc N]) @ [Rmdir p]"
proof -
  define s1 where "s1 = snd (sys (env_nest N rm) (OpenDir p) s)"
  define s2 where "s2 = snd (sys (env_nest N rm) (Fstat 10) s1)"
  have o: "sys (env_nest N rm) (OpenDir p) s = (Resp 10 0 (Stat 0 0 False) [] [] [], s1)"
    by (simp add: s1_def sys_def env_nest_def Let_def)
  have f: "sys (env_nest N rm) (Fstat 10) s1 = (Resp 0 0 (Stat 1 10 True) [] [] [], s2)"
    by (simp add: s2_def sys_def env_nest_def Let_def)
  have t2: "trace s2 = trace s @ [(OpenDir p, Resp 10 0 (Stat 0 0 False) [] [] []),
                                  (Fstat 10, Resp 0 0 (Stat 1 10 True) [] [] [])]"
    by (simp add: s2_def s1_def sys_def env_nest_def Let_def)
  have d2: "depth_left N N s2"
    using d by (simp add: depth_left_def t2 gone_append gone_Cons gone_Nil)
  have r2: "removals (trace s2) = removals (trace s)"
    by (simp add: t2 removals_append removals_Cons removals_Nil)
  from walk_nest [of N N 0 s2 "[]" "- 1" rm] d2 obtain pf s3 where
    l: "rm_tree_loop (env_nest N rm) (Stat 1 10 True) (- 1) 10 [] 0 s2 = Some ((0, pf, 10), s3)"
      "removals (trace s3) = removals (trace s2)
         @ map (\<lambda>j. Unlinkat (9 + int j) ''d'') (rev [1..<Suc N])"
    by auto
  define s4 where "s4 = snd (sys (env_nest N rm) (Close 10) s3)"
  define s5 where "s5 = (if pf \<noteq> - 1 then snd (sys (env_nest N rm) (Close pf) s4) else s4)"
  have r5: "removals (trace s5) = removals (trace s3)"
    by (simp add: s5_def s4_def sys_def Let_def removals_append removals_Cons removals_Nil)
  have e: "rm_tree (env_nest N rm) p s = Some (0, snd (sys (env_nest N rm) (Rmdir p) s5))"
    using l(1) by (simp add: rm_tree_def o f Let_def s4_def s5_def)
  have tr: "trace (snd (sys (env_nest N rm) (Rmdir p) s5)) = trace s5 @ [(Rmdir p, rm)]"
    by (simp add: sys_def env_nest_def Let_def)
  show ?thesis
    using e tr r5 l(2) r2
    by (intro exI [of _ "snd (sys (env_nest N rm) (Rmdir p) s5)"] exI [of _ "trace s5"])
       (simp add: removals_append removals_Cons removals_Nil)
qed

text \<open>
  Claim C2 as amended.  The directory where the walk ends is recognised by its inode
  number; the device is not compared.  When a scan finds no subdirectory and the \<open>fstat\<close>
  of the current directory succeeds, the loop is left with \<open>ret = 0\<close> exactly when the
  inode number of the current directory is the root's.  When the numbers differ, the
  parent is opened and the directory is closed; where it was entered by a descent and its
  removal succeeds, the walk goes on from the parent, one level up and with no name.
  Once the loop is left, \<open>rm_tree\<close>
  returns the value \<open>ret\<close> has then, and the last thing it does is the \<open>rmdir\<close> of the
  root, whatever that call answers.  On a chain of \<open>N\<close> nested empty directories, for
  every \<open>N\<close>, ascent and removal repeat until the walk is back in the root: \<open>rm_tree\<close>
  returns 0 and its removals are the \<open>N\<close> directories, the deepest first, and then the
  \<open>rmdir\<close> of the root, whose answer \<open>rm\<close>, failure or not, does not enter the result.
\<close>

theorem rm_tree_ascends_to_root:
  "(goto_next_dir env parentfd fd name PATH_MAX s = ((1, parentfd1, fd1, name1), s1)
      \<and> r_ret (env (trace s1) (Fstat fd1)) = 0 \<longrightarrow>
      ((\<exists>x s'. rm_tree_body env st parentfd fd name level s = Some ((Break, 0, x), s'))
        \<longleftrightarrow> st_ino st = st_ino (r_stat (env (trace s1) (Fstat fd1)))))
   \<and> (goto_next_dir env parentfd fd name PATH_MAX s = ((1, parentfd1, fd1, name1), s1)
      \<and> sys env (Fstat fd1) s1 = (pst, a2) \<and> r_ret pst = 0
      \<and> st_ino st \<noteq> st_ino (r_stat pst)
      \<and> sys env (Openat parentfd1 ''..'') a2 = (pfd, a3) \<and> r_ret pfd \<noteq> - 1
      \<and> sys env (Close fd1) a3 = (c, a4) \<and> name1 \<noteq> []
      \<and> rmdir_retry env parentfd1 name1 a4 = Some (0, a5) \<and> 1 \<le> level \<longrightarrow>
      rm_tree_loop env st parentfd fd name level s
        = rm_tree_loop env st (r_ret pfd) parentfd1 [] (level - 1) a5)
   \<and> (sys env (OpenDir path) s = (dirfd, s2) \<and> r_ret dirfd \<noteq> - 1
      \<and> sys env (Fstat (r_ret dirfd)) s2 = (rootst, s3) \<and> r_ret rootst = 0
      \<and> rm_tree_loop env (r_stat rootst) (- 1) (r_ret dirfd) [] 0 s3
          = Some ((ret, parentfd', fd'), s4) \<longrightarrow>
      (\<exists>s' t. rm_tree env path s = Some (ret, s')
         \<and> trace s' = t @ [(Rmdir path, env t (Rmdir path))]))
   \<and> (depth_left N N b \<longrightarrow>
      (\<exists>s' t. rm_tree (env_nest N rm) p b = Some (0, s')
         \<and> trace s' = t @ [(Rmdir p, rm)]
         \<and> removals (trace s') = removals (trace b)
              @ map (\<lambda>j. Unlinkat (9 + int j) ''d'') (rev [1..<Suc N]) @ [Rmdir p]))"
proof (intro conjI impI)
  assume "goto_next_dir env parentfd fd name PATH_MAX s = ((1, parentfd1, fd1, name1), s1)
      \<and> r_ret (env (trace s1) (Fstat fd1)) = 0"
  then show "(\<exists>x s'. rm_tree_body env st parentfd fd name level s = Some ((Break, 0, x), s'))
        \<longleftrightarrow> st_ino st = st_ino (r_stat (env (trace s1) (Fstat fd1)))"
    by (auto simp: rm_tree_body_def vzctl_err_def sys_def Let_def
             split: option.splits if_splits prod.splits)
next
  assume h: "goto_next_dir env parentfd fd name PATH_MAX s = ((1, parentfd1, fd1, name1), s1)
      \<and> sys env (Fstat fd1) s1 = (pst, a2) \<and> r_ret pst = 0
      \<and> st_ino st \<noteq> st_ino (r_stat pst)
      \<and> sys env (Openat parentfd1 ''..'') a2 = (pfd, a3) \<and> r_ret pfd \<noteq> - 1
      \<and> sys env (Close fd1) a3 = (c, a4) \<and> name1 \<noteq> []
      \<and> rmdir_retry env parentfd1 name1 a4 = Some (0, a5) \<and> 1 \<le> level"
  then have "rm_tree_body env st parentfd fd name level s
      = Some ((Continue, 0, r_ret pfd, parentfd1, [], level - 1), a5)"
    by (simp add: rm_tree_body_def)
  with h show "rm_tree_loop env st parentfd fd name level s
        = rm_tree_loop env st (r_ret pfd) parentfd1 [] (level - 1) a5"
    by (subst rm_tree_loop.simps) simp
next
  assume "sys env (OpenDir path) s = (dirfd, s2) \<and> r_ret dirfd \<noteq> - 1
      \<and> sys env (Fstat (r_ret dirfd)) s2 = (rootst, s3) \<and> r_ret rootst = 0
      \<and> rm_tree_loop env (r_stat rootst) (- 1) (r_ret dirfd) [] 0 s3
          = Some ((ret, parentfd', fd'), s4)"
  then show "\<exists>s' t. rm_tree env path s = Some (ret, s')
         \<and> trace s' = t @ [(Rmdir path, env t (Rmdir path))]"
    by (simp add: rm_tree_def trace_sys Let_def split_beta)
next
  assume "depth_left N N b"
  then show "\<exists>s' t. rm_tree (env_nest N rm) p b = Some (0, s')
         \<and> trace s' = t @ [(Rmdir p, rm)]
         \<and> removals (trace s') = removals (trace b)
              @ map (\<lambda>j. Unlinkat (9 + int j) ''d'') (rev [1..<Suc N]) @ [Rmdir p]"
    by (rule rm_tree_nest)
qed

theorem rm_tree_ascends_to_root_witness:
  "(\<exists>x s'. rm_tree_body env_mnt (Stat 1 7 True) 3 4 ''sub'' 1 s0 = Some ((Break, 0, x), s'))
   \<and> (\<exists>a5. rmdir_retry (env_nest 1 ok) 10 ''d''
              (snd (sys (env_nest 1 ok) (Close 11)
                (snd (sys (env_nest 1 ok) (Openat 10 ''..'')
                  (snd (sys (env_nest 1 ok) (Fstat 11)
                    (snd (goto_next_dir (env_nest 1 ok) 10 11 ''d'' PATH_MAX s0)))))))) = Some (0, a5)
         \<and> map fst (trace a5) = [Fdopendir 11, Readdir 11, Fstat 11, Openat 10 ''..'', Close 11,
                                  Unlinkat 10 ''d'']
         \<and> rm_tree_loop (env_nest 1 ok) (Stat 1 10 True) 10 11 ''d'' 1 s0
             = rm_tree_loop (env_nest 1 ok) (Stat 1 10 True) 9 10 [] 0 a5)
   \<and> (\<exists>s' t. rm_tree env_mnt ''/cg/ct'' s0 = Some (0, s')
         \<and> trace s' = t @ [(Rmdir ''/cg/ct'', failing 39)])
   \<and> depth_left 2 2 s0
   \<and> (\<exists>s' t. rm_tree (env_nest 2 (failing 39)) ''/cg/ct'' s0 = Some (0, s')
         \<and> trace s' = t @ [(Rmdir ''/cg/ct'', failing 39)]
         \<and> removals (trace s') = [Unlinkat 11 ''d'', Unlinkat 10 ''d'', Rmdir ''/cg/ct''])"
proof (intro conjI)
  have g: "goto_next_dir env_mnt 3 4 ''sub'' PATH_MAX s0
      = ((1, 3, 4, ''sub''), snd (goto_next_dir env_mnt 3 4 ''sub'' PATH_MAX s0))"
    by (simp add: goto_next_dir_def sys_def env_mnt_def ok_def Let_def s0_def)
  have f: "r_ret (env_mnt (trace (snd (goto_next_dir env_mnt 3 4 ''sub'' PATH_MAX s0))) (Fstat 4)) = 0"
    "st_ino (Stat 1 7 True)
      = st_ino (r_stat (env_mnt (trace (snd (goto_next_dir env_mnt 3 4 ''sub'' PATH_MAX s0))) (Fstat 4)))"
    by (simp_all add: env_mnt_def)
  from rm_tree_ascends_to_root [where env = env_mnt and parentfd = 3 and fd = 4
      and name = "''sub''" and s = s0 and ?parentfd1.0 = 3 and ?fd1.0 = 4 and ?name1.0 = "''sub''"
      and ?s1.0 = "snd (goto_next_dir env_mnt 3 4 ''sub'' PATH_MAX s0)"
      and st = "Stat 1 7 True" and level = 1, THEN conjunct1] g f
  show "\<exists>x s'. rm_tree_body env_mnt (Stat 1 7 True) 3 4 ''sub'' 1 s0 = Some ((Break, 0, x), s')"
    by blast
next
  define e where "e = env_nest 1 ok"
  define a1 where "a1 = snd (goto_next_dir e 10 11 ''d'' PATH_MAX s0)"
  define a2 where "a2 = snd (sys e (Fstat 11) a1)"
  define a3 where "a3 = snd (sys e (Openat 10 ''..'') a2)"
  define a4 where "a4 = snd (sys e (Close 11) a3)"
  have g: "goto_next_dir e 10 11 ''d'' PATH_MAX s0 = ((1, 10, 11, ''d''), a1)"
    by (simp add: a1_def e_def goto_next_dir_def sys_def env_nest_def ok_def Let_def s0_def)
  have t1: "trace a1 = [(Fdopendir 11, ok),
        (Readdir 11, Resp 0 0 (Stat 0 0 False) [] [''.'', ''..''] [])]"
    by (simp add: a1_def e_def goto_next_dir_def sys_def env_nest_def ok_def Let_def s0_def)
  have f: "sys e (Fstat 11) a1 = (Resp 0 0 (Stat 1 11 True) [] [] [], a2)"
    by (simp add: a2_def e_def sys_def env_nest_def Let_def)
  have o: "sys e (Openat 10 ''..'') a2 = (Resp 9 0 (Stat 0 0 False) [] [] [], a3)"
    by (simp add: a3_def e_def sys_def env_nest_def Let_def)
  have c: "sys e (Close 11) a3 = (ok, a4)"
    by (simp add: a4_def e_def sys_def env_nest_def Let_def)
  have t4: "trace a4 = trace a1 @ [(Fstat 11, Resp 0 0 (Stat 1 11 True) [] [] []),
        (Openat 10 ''..'', Resp 9 0 (Stat 0 0 False) [] [] []), (Close 11, ok)]"
    by (simp add: a4_def a3_def a2_def e_def sys_def env_nest_def Let_def)
  have r: "rmdir_retry e 10 ''d'' a4 = Some (0, snd (sys e (Unlinkat 10 ''d'') a4))"
    by (simp add: rmdir_retry_def rmdir_retry_loop.simps e_def sys_def env_nest_def ok_def
          Let_def)
  have t5: "map fst (trace (snd (sys e (Unlinkat 10 ''d'') a4)))
      = [Fdopendir 11, Readdir 11, Fstat 11, Openat 10 ''..'', Close 11, Unlinkat 10 ''d'']"
    by (simp add: trace_sys t4 t1)
  from rm_tree_ascends_to_root [where env = e and parentfd = 10 and fd = 11
      and name = "''d''" and s = s0 and ?parentfd1.0 = 10 and ?fd1.0 = 11 and ?name1.0 = "''d''"
      and ?s1.0 = a1 and pst = "Resp 0 0 (Stat 1 11 True) [] [] []" and ?a2.0 = a2
      and pfd = "Resp 9 0 (Stat 0 0 False) [] [] []" and ?a3.0 = a3 and c = ok and ?a4.0 = a4
      and ?a5.0 = "snd (sys e (Unlinkat 10 ''d'') a4)"
      and st = "Stat 1 10 True" and level = 1, THEN conjunct2, THEN conjunct1] g f o c r
  have l: "rm_tree_loop e (Stat 1 10 True) 10 11 ''d'' 1 s0
      = rm_tree_loop e (Stat 1 10 True) 9 10 [] 0 (snd (sys e (Unlinkat 10 ''d'') a4))"
    by simp
  have "\<exists>a5. rmdir_retry e 10 ''d'' a4 = Some (0, a5)
         \<and> map fst (trace a5) = [Fdopendir 11, Readdir 11, Fstat 11, Openat 10 ''..'', Close 11,
                                  Unlinkat 10 ''d'']
         \<and> rm_tree_loop e (Stat 1 10 True) 10 11 ''d'' 1 s0
             = rm_tree_loop e (Stat 1 10 True) 9 10 [] 0 a5"
    by (rule exI [of _ "snd (sys e (Unlinkat 10 ''d'') a4)"]) (intro conjI r t5 l)
  then show "\<exists>a5. rmdir_retry (env_nest 1 ok) 10 ''d''
              (snd (sys (env_nest 1 ok) (Close 11)
                (snd (sys (env_nest 1 ok) (Openat 10 ''..'')
                  (snd (sys (env_nest 1 ok) (Fstat 11)
                    (snd (goto_next_dir (env_nest 1 ok) 10 11 ''d'' PATH_MAX s0)))))))) = Some (0, a5)
         \<and> map fst (trace a5) = [Fdopendir 11, Readdir 11, Fstat 11, Openat 10 ''..'', Close 11,
                                  Unlinkat 10 ''d'']
         \<and> rm_tree_loop (env_nest 1 ok) (Stat 1 10 True) 10 11 ''d'' 1 s0
             = rm_tree_loop (env_nest 1 ok) (Stat 1 10 True) 9 10 [] 0 a5"
    unfolding a4_def a3_def a2_def a1_def e_def .
next
  define s2 where "s2 = snd (sys env_mnt (OpenDir ''/cg/ct'') s0)"
  define s3 where "s3 = snd (sys env_mnt (Fstat 3) s2)"
  have a: "sys env_mnt (OpenDir ''/cg/ct'') s0 = (Resp 3 0 (Stat 0 0 False) [] [] [], s2)"
    by (simp add: s2_def sys_def env_mnt_def Let_def)
  have b: "sys env_mnt (Fstat 3) s2 = (Resp 0 0 (Stat 1 7 True) [] [] [], s3)"
    by (simp add: s3_def sys_def env_mnt_def Let_def)
  have "\<exists>r. rm_tree_loop env_mnt (Stat 1 7 True) (- 1) 3 [] 0 s3 = Some ((0, 3, 4), r)"
    by (simp add: s3_def s2_def s0_def rm_tree_loop.simps rm_tree_body_def goto_next_dir_def
          sys_def env_mnt_def ok_def Let_def ENOENT_def PATH_MAX_def)
  then obtain s4 where c: "rm_tree_loop env_mnt (Stat 1 7 True) (- 1) 3 [] 0 s3 = Some ((0, 3, 4), s4)"
    by blast
  from rm_tree_ascends_to_root [where env = env_mnt and s = s0 and path = "''/cg/ct''"
      and dirfd = "Resp 3 0 (Stat 0 0 False) [] [] []" and ?s2.0 = s2
      and rootst = "Resp 0 0 (Stat 1 7 True) [] [] []" and ?s3.0 = s3
      and ret = 0 and parentfd' = 3 and fd' = 4 and ?s4.0 = s4,
      THEN conjunct2, THEN conjunct2, THEN conjunct1] a b c
  have "\<exists>s' t. rm_tree env_mnt ''/cg/ct'' s0 = Some (0, s')
         \<and> trace s' = t @ [(Rmdir ''/cg/ct'', env_mnt t (Rmdir ''/cg/ct''))]"
    by simp
  then show "\<exists>s' t. rm_tree env_mnt ''/cg/ct'' s0 = Some (0, s')
         \<and> trace s' = t @ [(Rmdir ''/cg/ct'', failing 39)]"
    by (simp add: env_mnt_def)
next
  show d: "depth_left 2 2 s0"
    by (simp add: depth_left_def gone_def s0_def)
  from rm_tree_ascends_to_root [where N = 2 and b = s0 and rm = "failing 39"
      and p = "''/cg/ct''",
      THEN conjunct2, THEN conjunct2, THEN conjunct2] d
  show "\<exists>s' t. rm_tree (env_nest 2 (failing 39)) ''/cg/ct'' s0 = Some (0, s')
         \<and> trace s' = t @ [(Rmdir ''/cg/ct'', failing 39)]
         \<and> removals (trace s') = [Unlinkat 11 ''d'', Unlinkat 10 ''d'', Rmdir ''/cg/ct'']"
    by (simp add: removals_def s0_def upt_rec)
qed

subsection \<open>cg_bindmount_cgroup\<close>

text \<open>
  Claim C7, at the inputs where the code departs from it.  When the \<open>tmpfs\<close> mount fails
  after the \<open>sysfs\<close> mount succeeded, \<open>cg_bindmount_cgroup\<close> returns at once: no
  \<open>umount\<close> follows and \<open><root>/sys\<close> stays mounted.  When both mounts succeed and
  /proc/cgroups cannot be read, it returns at once as well and both stay mounted.
\<close>

theorem cg_bindmount_cgroup_skeleton_left_mounted:
  "fst (cg_bindmount_cgroup H0 env_tmpfs_fails ''/vz/root/101'' ''101'' [] s0)
     = Ret (VZCTL_E_RESOURCE H0, [])
   \<and> map fst (trace (snd (cg_bindmount_cgroup H0 env_tmpfs_fails ''/vz/root/101'' ''101'' [] s0)))
     = [Access ''/vz/root/101/sys'',
        Mount None (Some ''/vz/root/101/sys'') (Some ''sysfs'') [],
        Access ''/vz/root/101/sys/fs/cgroup'',
        Mount None (Some ''/vz/root/101/sys/fs/cgroup'') (Some ''tmpfs'') []]
   \<and> fst (cg_bindmount_cgroup H0 env_no_proc_cgroups ''/vz/root/101'' ''101'' [] s0)
     = Ret (VZCTL_E_SYSTEM H0, [])
   \<and> map fst (trace (snd (cg_bindmount_cgroup H0 env_no_proc_cgroups ''/vz/root/101'' ''101'' [] s0)))
     = [Access ''/vz/root/101/sys'',
        Mount None (Some ''/vz/root/101/sys'') (Some ''sysfs'') [],
        Access ''/vz/root/101/sys/fs/cgroup'',
        Mount None (Some ''/vz/root/101/sys/fs/cgroup'') (Some ''tmpfs'') [],
        ProcCgroups]"
  by (simp add: cg_bindmount_cgroup_def get_cgroups_def access_and_make_dir_def sys_def
        env_tmpfs_fails_def env_no_proc_cgroups_def H0_def
        ok_def failing_def vzctl_err_def logger_def s0_def PATH_MAX_def Let_def)

subsection \<open>Frames\<close>

lemma reach_refl: "reach P M a a"
  by (simp add: reach_def)

lemma reach_trans:
  assumes "reach P M a b" "reach P M b c"
  shows "reach P M a c"
proof -
  from assms obtain e1 e2 where e: "trace b = trace a @ e1" "list_all (\<lambda>x. P (fst x)) e1"
      "trace c = trace b @ e2" "list_all (\<lambda>x. P (fst x)) e2"
    by (auto simp: reach_def)
  then have "trace c = trace a @ (e1 @ e2) \<and> list_all (\<lambda>x. P (fst x)) (e1 @ e2)"
    by simp
  then have 1: "\<exists>e. trace c = trace a @ e \<and> list_all (\<lambda>x. P (fst x)) e"
    by blast
  have 2: "\<forall>j. j \<notin> M \<longrightarrow> mount_path c j = mount_path a j"
    using assms by (simp add: reach_def)
  have 3: "\<forall>j. mount_path a j \<noteq> None \<longrightarrow> mount_path c j = mount_path a j"
    using assms by (simp add: reach_def)
  have 4: "slice a \<noteq> None \<longrightarrow> slice c = slice a"
    using assms by (simp add: reach_def)
  from 1 2 3 4 show ?thesis
    by (simp add: reach_def)
qed

lemma reach_weaken: "reach P M a s \<Longrightarrow> (\<And>c. P c \<Longrightarrow> Q c) \<Longrightarrow> M \<subseteq> M' \<Longrightarrow> reach Q M' a s"
  unfolding reach_def by (auto simp: list_all_iff)

lemma reach_sys: "reach P M a s \<Longrightarrow> P c \<Longrightarrow> reach P M a (snd (sys env c s))"
  by (auto simp: reach_def sys_def Let_def)

lemma reach_logger: "reach P M a s \<Longrightarrow> reach P M a (logger l e m s)"
  by (simp add: reach_def logger_def)

lemma reach_vzctl_err: "reach P M a s \<Longrightarrow> reach P M a (snd (vzctl_err rc e m s))"
  by (simp add: reach_def vzctl_err_def logger_def)

lemma reach_errno: "reach P M a s \<Longrightarrow> reach P M a (s\<lparr>errno := e\<rparr>)"
  by (simp add: reach_def)

lemmas reach_steps = reach_sys reach_logger reach_vzctl_err reach_errno

lemma reach_goto_next_dir_loop:
  "reach walk_call M a s \<Longrightarrow> reach walk_call M a (snd (goto_next_dir_loop env parentfd fd out sz st ents s))"
proof (induction ents arbitrary: parentfd fd out st s)
  case Nil
  then show ?case by simp
next
  case (Cons d_name ents)
  show ?case
    using Cons.prems
    by (auto simp: split_beta Let_def intro!: Cons.IH reach_steps)
qed

lemma reach_goto_next_dir:
  "reach walk_call M a s \<Longrightarrow> reach walk_call M a (snd (goto_next_dir env parentfd fd out sz s))"
  by (auto simp: goto_next_dir_def split_beta intro!: reach_goto_next_dir_loop reach_steps)

lemma reach_rmdir_retry_loop_aux:
  assumes "rmdir_retry_loop env fd name tot wait s = Some y"
  shows "\<forall>a. reach walk_call M a s \<longrightarrow> reach walk_call M a (snd y)"
proof (rule rmdir_retry_loop.raw_induct
    [where P = "\<lambda>env fd name tot wait s y. \<forall>a. reach walk_call M a s \<longrightarrow> reach walk_call M a (snd y)",
     OF _ assms],
    goal_cases)
  case (1 f env fd name tot wait s y)
  show ?case
  proof (intro allI impI)
    fix a
    assume a: "reach walk_call M a s"
    define s1 where "s1 = snd (sys env (Unlinkat fd name) s)"
    define s2 where "s2 = snd (sys env (Usleep (unat wait)) s1)"
    have r1: "reach walk_call M a s1"
      unfolding s1_def using a by (rule reach_sys) simp
    have r2: "reach walk_call M a s2"
      unfolding s2_def using r1 by (rule reach_sys) simp
    from 1(2) show "reach walk_call M a (snd y)"
      using r1 r2 1(1)
      by (auto simp: split_beta Let_def s1_def [symmetric] s2_def [symmetric]
               split: if_splits intro!: reach_steps)
  qed
qed

lemma reach_rmdir_retry:
  "rmdir_retry env fd name s = Some y \<Longrightarrow> reach walk_call M a s \<Longrightarrow> reach walk_call M a (snd y)"
  unfolding rmdir_retry_def using reach_rmdir_retry_loop_aux by blast

lemma reach_rm_tree_body:
  assumes "rm_tree_body env st parentfd fd name level s = Some y" "reach walk_call M a s"
  shows "reach walk_call M a (snd y)"
proof -
  define s1 where "s1 = snd (goto_next_dir env parentfd fd name PATH_MAX s)"
  have r1: "reach walk_call M a s1"
    unfolding s1_def using assms(2) by (rule reach_goto_next_dir)
  obtain rc parentfd1 fd1 name1 where g: "goto_next_dir env parentfd fd name PATH_MAX s = ((rc, parentfd1, fd1, name1), s1)"
    by (cases "goto_next_dir env parentfd fd name PATH_MAX s") (auto simp: s1_def)
  define s2 where "s2 = snd (sys env (Fstat fd1) s1)"
  define s3 where "s3 = snd (sys env (Openat parentfd1 ''..'') s2)"
  define s4 where "s4 = snd (sys env (Close fd1) s3)"
  have r2: "reach walk_call M a s2" unfolding s2_def using r1 by (rule reach_sys) simp
  have r3: "reach walk_call M a s3" unfolding s3_def using r2 by (rule reach_sys) simp
  have r4: "reach walk_call M a s4" unfolding s4_def using r3 by (rule reach_sys) simp
  from assms(1) show ?thesis
    using r1 r2 r3 r4 reach_rmdir_retry [of env parentfd1 name1 s4 _ M a]
    by (auto simp: rm_tree_body_def g split_beta Let_def s2_def [symmetric] s3_def [symmetric]
          s4_def [symmetric]
        split: if_splits option.splits intro!: reach_steps)
qed

lemma reach_rm_tree_loop_aux:
  assumes "rm_tree_loop env st parentfd fd name level s = Some y"
  shows "\<forall>a. reach walk_call M a s \<longrightarrow> reach walk_call M a (snd y)"
proof (rule rm_tree_loop.raw_induct
    [where P = "\<lambda>env st parentfd fd name level s y.
        \<forall>a. reach walk_call M a s \<longrightarrow> reach walk_call M a (snd y)",
     OF _ assms],
    goal_cases)
  case (1 f env st parentfd fd name level s y)
  show ?case
  proof (intro allI impI)
    fix a
    assume a: "reach walk_call M a s"
    from 1(2) obtain b where b: "rm_tree_body env st parentfd fd name level s = Some b"
      by (cases "rm_tree_body env st parentfd fd name level s") simp_all
    have rb: "reach walk_call M a (snd b)"
      using reach_rm_tree_body [OF b a] .
    from 1(2) show "reach walk_call M a (snd y)"
      using rb 1(1)
      by (auto simp: b split_beta split: if_splits)
  qed
qed

lemma rm_tree_reach:
  assumes "rm_tree env path s = Some (r, s')"
  shows "reach walk_call {} (snd (sys env (OpenDir path) s)) s'"
proof -
  define s1 where "s1 = snd (sys env (OpenDir path) s)"
  define fd where "fd = r_ret (fst (sys env (OpenDir path) s))"
  define s2 where "s2 = snd (sys env (Fstat fd) s1)"
  have r1: "reach walk_call {} s1 s1" by (rule reach_refl)
  have r2: "reach walk_call {} s1 s2" unfolding s2_def using r1 by (rule reach_sys) simp
  from assms show ?thesis
    using r1 r2 reach_rm_tree_loop_aux [of env _ "- 1" fd "[]" 0 s2 _ "{}"]
    by (auto simp: rm_tree_def split_beta Let_def s1_def [symmetric] fd_def [symmetric]
          s2_def [symmetric] vzctl_err_def
        split: if_splits option.splits intro!: reach_steps reach_refl)
qed

lemma rm_tree_open_fails:
  assumes "r_ret (env (trace s) (OpenDir path)) = - 1"
  shows "rm_tree env path s =
     Some (if r_errno (env (trace s) (OpenDir path)) = ENOENT then (0, snd (sys env (OpenDir path) s))
           else vzctl_err (- 1) (r_errno (env (trace s) (OpenDir path))) (''Can't open '' @ path)
                  (snd (sys env (OpenDir path) s)))"
  using assms by (simp add: rm_tree_def sys_def Let_def)

lemma length_cg_ctl_map: "length cg_ctl_map = 13"
  by (simp add: cg_ctl_map_def)

lemma lt_13_cases:
  "i < 13 \<Longrightarrow> i = 0 \<or> i = 1 \<or> i = 2 \<or> i = 3 \<or> i = 4 \<or> i = 5 \<or> i = 6 \<or> i = 7 \<or> i = 8
     \<or> i = 9 \<or> i = 10 \<or> i = 11 \<or> i = (12::nat)"
  by arith

lemma find_cg_ctl_nth:
  assumes "i < length cg_ctl_map"
  shows "find_cg_ctl (subsys (cg_ctl_map ! i)) = Some i"
proof -
  have names: "map subsys cg_ctl_map = [''cpu'', ''cpuset'', ''net_cls'', ''memory'', ''devices'',
      ''blkio'', ''freezer'', ''beancounter'', ''ve'', ''perf_event'', ''hugetlb'', ''pids'', ''systemd'']"
    by (simp add: cg_ctl_map_def CG_CPU_def CG_CPUSET_def CG_NET_CLS_def CG_MEMORY_def
        CG_DEVICES_def CG_BLKIO_def CG_FREEZER_def CG_UB_def CG_VE_def CG_PERF_EVENT_def
        CG_HUGETLB_def CG_PIDS_def)
  have u: "[0..<length cg_ctl_map] = [0, 1, 2, 3, 4, 5, 6, 7, 8, 9, 10, 11, 12]"
    by (simp add: length_cg_ctl_map upt_rec)
  have nth: "\<And>j. j < 13 \<Longrightarrow> subsys (cg_ctl_map ! j) = map subsys cg_ctl_map ! j"
    by (simp add: length_cg_ctl_map)
  from assms have "i < 13" by (simp add: length_cg_ctl_map)
  from lt_13_cases [OF this] show ?thesis
    unfolding find_cg_ctl_def u
    by (elim disjE) (simp_all add: nth names)
qed

lemma get_mount_path_ret:
  "get_mount_path env sub sz s = ((ret, mp), s1) \<Longrightarrow> ret = 0 \<or> ret = 1 \<or> ret = - 1"
  by (auto simp: get_mount_path_def vzctl_err_def split_beta split: if_splits option.splits)

lemma reach_get_mount_path:
  "reach lookup_call M a s \<Longrightarrow> reach lookup_call M a (snd (get_mount_path env sub sz s))"
  by (auto simp: get_mount_path_def split_beta split: option.splits intro!: reach_steps)

lemma reach_set_mount_path:
  "reach P M a s \<Longrightarrow> i \<in> M \<Longrightarrow> mount_path s i = None \<Longrightarrow> m = mount_path s
    \<Longrightarrow> reach P M a (s\<lparr>mount_path := m(i := Some mp)\<rparr>)"
  by (auto simp: reach_def)

lemma mount_path_sys: "mount_path (snd (sys env c s)) = mount_path s"
  by (simp add: sys_def Let_def)

lemma slice_sys: "slice (snd (sys env c s)) = slice s"
  by (simp add: sys_def Let_def)

lemma mount_path_get_mount_path: "mount_path (snd (get_mount_path env sub sz s)) = mount_path s"
  by (simp add: get_mount_path_def split_beta vzctl_err_def logger_def mount_path_sys split: option.splits)

lemma slice_get_mount_path: "slice (snd (get_mount_path env sub sz s)) = slice s"
  by (simp add: get_mount_path_def split_beta vzctl_err_def logger_def slice_sys split: option.splits)

lemma cg_get_ctl_reach:
  assumes "i < length cg_ctl_map" "reach lookup_call M a s" "i \<in> M"
  shows "reach lookup_call M a (snd (cg_get_ctl env (subsys (cg_ctl_map ! i)) s))"
  using assms(2,3)
  by (auto simp: cg_get_ctl_def find_cg_ctl_nth [OF assms(1)] split_beta mount_path_sys
        mount_path_get_mount_path
      intro!: reach_steps reach_get_mount_path reach_set_mount_path)

lemma cg_get_ctl_result:
  assumes "i < length cg_ctl_map"
    and "cg_get_ctl env (subsys (cg_ctl_map ! i)) s = ((ret, ctl), s1)"
  shows "ctl = Some i" "ret = 0 \<longleftrightarrow> mount_path s1 i \<noteq> None" "ret = 0 \<or> ret = 1 \<or> ret = - 1"
    "slice s1 = slice s"
proof -
  obtain r mp g where g: "get_mount_path env (subsys (cg_ctl_map ! i)) PATH_MAX s = ((r, mp), g)"
    by (metis surj_pair)
  have mg: "mount_path g = mount_path s" "slice g = slice s"
    using mount_path_get_mount_path [of env "subsys (cg_ctl_map ! i)" PATH_MAX s]
      slice_get_mount_path [of env "subsys (cg_ctl_map ! i)" PATH_MAX s] g by simp_all
  note r = get_mount_path_ret [OF g]
  from assms(2) show "ctl = Some i"
    by (auto simp: cg_get_ctl_def find_cg_ctl_nth [OF assms(1)] g split_beta split: if_splits)
  from assms(2) r mg show "ret = 0 \<longleftrightarrow> mount_path s1 i \<noteq> None"
    by (auto simp: cg_get_ctl_def find_cg_ctl_nth [OF assms(1)] g split_beta mount_path_sys
          vzctl_err_def logger_def split: if_splits)
  from assms(2) r show "ret = 0 \<or> ret = 1 \<or> ret = - 1"
    by (auto simp: cg_get_ctl_def find_cg_ctl_nth [OF assms(1)] g split_beta split: if_splits)
  from assms(2) mg show "slice s1 = slice s"
    by (auto simp: cg_get_ctl_def find_cg_ctl_nth [OF assms(1)] g split_beta slice_sys
          vzctl_err_def logger_def split: if_splits)
qed

lemma cg_get_slice_name_reach:
  "reach lookup_call M a s \<Longrightarrow> reach lookup_call M a (snd (cg_get_slice_name env s))"
  unfolding reach_def cg_get_slice_name_def
  by (auto simp: split_beta Let_def sys_def split: option.splits)

lemma cg_get_slice_name_sets:
  "cg_get_slice_name env s = (sl, s1) \<Longrightarrow> slice s1 = Some sl"
  by (auto simp: cg_get_slice_name_def split_beta Let_def split: option.splits)

lemma cg_get_slice_name_cached:
  "slice s = Some sl \<Longrightarrow> cg_get_slice_name env s = (sl, s)"
  by (simp add: cg_get_slice_name_def)

lemma get_cgroup_name_reach:
  "reach lookup_call M a s \<Longrightarrow> reach lookup_call M a (snd (get_cgroup_name H env ctid i sz s))"
  by (auto simp: get_cgroup_name_def split_beta intro!: cg_get_slice_name_reach)

lemma get_cgroup_name_stable:
  assumes "get_cgroup_name H env ctid i sz s = (p, s1)"
    and "reach P M s1 s'" and "mount_path s i \<noteq> None"
  shows "fst (get_cgroup_name H env ctid i sz s') = p"
proof -
  have m1: "mount_path s1 = mount_path s"
    using assms(1) by (auto simp: get_cgroup_name_def cg_get_slice_name_def split_beta Let_def sys_def
        split: if_splits option.splits)
  with assms(2,3) have m: "mount_path s' i = mount_path s i"
    by (simp add: reach_def)
  show ?thesis
  proof (cases "cg_is_systemd (subsys (cg_ctl_map ! i)) \<or> is_prvt (cg_ctl_map ! i)")
    case True
    with assms(1) m show ?thesis
      by (auto simp: get_cgroup_name_def)
  next
    case False
    obtain sl where sl: "cg_get_slice_name env s = (sl, s1)"
      using assms(1) False by (auto simp: get_cgroup_name_def split_beta) (metis prod.collapse)
    from cg_get_slice_name_sets [OF sl] assms(2) have "slice s' = Some sl"
      by (simp add: reach_def)
    from cg_get_slice_name_cached [OF this] assms(1) False m sl show ?thesis
      by (auto simp: get_cgroup_name_def)
  qed
qed

lemma map_filter_append: "List.map_filter f (a @ b) = List.map_filter f a @ List.map_filter f b"
  by (simp add: List.map_filter_def)

lemma map_filter_none: "list_all (\<lambda>x. f x = None) e \<Longrightarrow> List.map_filter f e = []"
  by (induction e) (simp_all add: List.map_filter_def)

lemma reach_map_filter:
  assumes "reach P M a s" "\<And>c r. P c \<Longrightarrow> f (c, r) = None"
  shows "List.map_filter f (trace s) = List.map_filter f (trace a)"
proof -
  from assms(1) obtain e where e: "trace s = trace a @ e" "list_all (\<lambda>x. P (fst x)) e"
    by (auto simp: reach_def)
  from e(2) assms(2) have "list_all (\<lambda>x. f x = None) e"
    by (auto simp: list_all_iff)
  from map_filter_none [OF this] e(1) show ?thesis
    by (simp add: map_filter_append)
qed

lemma opens_lookup: "reach lookup_call M a s \<Longrightarrow> opens (trace s) = opens (trace a)"
  unfolding opens_def by (erule reach_map_filter) (auto split: call.splits)

lemma makes_lookup: "reach lookup_call M a s \<Longrightarrow> makes (trace s) = makes (trace a)"
  unfolding makes_def by (erule reach_map_filter) (auto split: call.splits)

lemma makes_walk: "reach walk_call M a s \<Longrightarrow> makes (trace s) = makes (trace a)"
  unfolding makes_def by (erule reach_map_filter) (auto split: call.splits)

lemma removals_lookup: "reach lookup_call M a s \<Longrightarrow> removals (trace s) = removals (trace a)"
  unfolding removals_def by (erule reach_map_filter) (auto split: call.splits)

lemma makes_sys_OpenDir: "makes (trace (snd (sys env (OpenDir p) s))) = makes (trace s)"
  by (simp add: makes_def sys_def Let_def map_filter_append List.map_filter_def)

lemma tree_call_lookup: "lookup_call c \<Longrightarrow> tree_call c"
  by (cases c) simp_all

lemma tree_call_walk: "walk_call c \<Longrightarrow> tree_call c"
  by (cases c) simp_all

lemma reach_tree_lookup: "reach lookup_call M a s \<Longrightarrow> reach tree_call M a s"
  by (erule reach_weaken) (simp_all add: tree_call_lookup)

lemma reach_tree_walk: "reach walk_call {} a s \<Longrightarrow> reach tree_call M a s"
  by (erule reach_weaken) (simp_all add: tree_call_walk)

lemma settled_reach: "settled s i \<Longrightarrow> reach P M s s' \<Longrightarrow> settled s' i"
  by (auto simp: settled_def reach_def)

lemma get_cgroup_name_settled:
  assumes "settled s i" "reach P M s s'"
  shows "fst (get_cgroup_name H env ctid i sz s') = fst (get_cgroup_name H env ctid i sz s)"
proof -
  from assms have m: "mount_path s' i = mount_path s i"
    by (simp add: settled_def reach_def)
  show ?thesis
  proof (cases "cg_is_systemd (subsys (cg_ctl_map ! i)) \<or> is_prvt (cg_ctl_map ! i)")
    case True
    with m show ?thesis by (auto simp: get_cgroup_name_def)
  next
    case False
    with assms(1) obtain sl where sl: "slice s = Some sl" by (auto simp: settled_def)
    with assms(2) have sl': "slice s' = Some sl" by (simp add: reach_def)
    from False m cg_get_slice_name_cached [OF sl] cg_get_slice_name_cached [OF sl']
    show ?thesis by (simp add: get_cgroup_name_def)
  qed
qed

lemma get_cgroup_name_settles:
  assumes "get_cgroup_name H env ctid i sz s = (p, s1)" "mount_path s i \<noteq> None"
  shows "settled s1 i"
proof -
  have m1: "mount_path s1 = mount_path s"
    using assms(1) by (auto simp: get_cgroup_name_def cg_get_slice_name_def split_beta Let_def sys_def
        split: if_splits option.splits)
  show ?thesis
  proof (cases "cg_is_systemd (subsys (cg_ctl_map ! i)) \<or> is_prvt (cg_ctl_map ! i)")
    case True
    with m1 assms(2) show ?thesis by (auto simp: settled_def)
  next
    case False
    obtain sl where sl: "cg_get_slice_name env s = (sl, s1)"
      using assms(1) False by (auto simp: get_cgroup_name_def split_beta) (metis prod.collapse)
    from cg_get_slice_name_sets [OF sl] m1 assms(2) show ?thesis
      by (simp add: settled_def)
  qed
qed

lemma reach_mount_path_out: "reach P M a s \<Longrightarrow> j \<notin> M \<Longrightarrow> mount_path s j = mount_path a j"
  by (simp add: reach_def)

lemma reach_mount_path_set: "reach P M a s \<Longrightarrow> mount_path a j \<noteq> None \<Longrightarrow> mount_path s j = mount_path a j"
  by (simp add: reach_def)

lemma scan_goto_next_dir_loop:
  "reach scan_call M a s \<Longrightarrow> reach scan_call M a (snd (goto_next_dir_loop env parentfd fd out sz st ents s))"
proof (induction ents arbitrary: parentfd fd out st s)
  case Nil
  then show ?case by simp
next
  case (Cons d_name ents)
  show ?case
    using Cons.prems
    by (auto simp: split_beta Let_def intro!: Cons.IH reach_steps)
qed

lemma scan_goto_next_dir:
  "reach scan_call M a s \<Longrightarrow> reach scan_call M a (snd (goto_next_dir env parentfd fd out sz s))"
  by (auto simp: goto_next_dir_def split_beta intro!: scan_goto_next_dir_loop reach_steps)

lemma scan_rmdir_retry_loop_aux:
  assumes "rmdir_retry_loop env fd name tot wait s = Some y"
  shows "\<forall>a. reach scan_call M a s \<longrightarrow> reach scan_call M a (snd y)"
proof (rule rmdir_retry_loop.raw_induct
    [where P = "\<lambda>env fd name tot wait s y. \<forall>a. reach scan_call M a s \<longrightarrow> reach scan_call M a (snd y)",
     OF _ assms],
    goal_cases)
  case (1 f env fd name tot wait s y)
  show ?case
  proof (intro allI impI)
    fix a
    assume a: "reach scan_call M a s"
    define s1 where "s1 = snd (sys env (Unlinkat fd name) s)"
    define s2 where "s2 = snd (sys env (Usleep (unat wait)) s1)"
    have r1: "reach scan_call M a s1"
      unfolding s1_def using a by (rule reach_sys) simp
    have r2: "reach scan_call M a s2"
      unfolding s2_def using r1 by (rule reach_sys) simp
    from 1(2) show "reach scan_call M a (snd y)"
      using r1 r2 1(1)
      by (auto simp: split_beta Let_def s1_def [symmetric] s2_def [symmetric]
               split: if_splits intro!: reach_steps)
  qed
qed

lemma scan_rmdir_retry:
  "rmdir_retry env fd name s = Some y \<Longrightarrow> reach scan_call M a s \<Longrightarrow> reach scan_call M a (snd y)"
  unfolding rmdir_retry_def using scan_rmdir_retry_loop_aux by blast

lemma scan_rm_tree_body:
  assumes "rm_tree_body env st parentfd fd name level s = Some y" "reach scan_call M a s"
  shows "reach scan_call M a (snd y)"
proof -
  define s1 where "s1 = snd (goto_next_dir env parentfd fd name PATH_MAX s)"
  have r1: "reach scan_call M a s1"
    unfolding s1_def using assms(2) by (rule scan_goto_next_dir)
  obtain rc parentfd1 fd1 name1 where g: "goto_next_dir env parentfd fd name PATH_MAX s = ((rc, parentfd1, fd1, name1), s1)"
    by (cases "goto_next_dir env parentfd fd name PATH_MAX s") (auto simp: s1_def)
  define s2 where "s2 = snd (sys env (Fstat fd1) s1)"
  define s3 where "s3 = snd (sys env (Openat parentfd1 ''..'') s2)"
  define s4 where "s4 = snd (sys env (Close fd1) s3)"
  have r2: "reach scan_call M a s2" unfolding s2_def using r1 by (rule reach_sys) simp
  have r3: "reach scan_call M a s3" unfolding s3_def using r2 by (rule reach_sys) simp
  have r4: "reach scan_call M a s4" unfolding s4_def using r3 by (rule reach_sys) simp
  from assms(1) show ?thesis
    using r1 r2 r3 r4 scan_rmdir_retry [of env parentfd1 name1 s4 _ M a]
    by (auto simp: rm_tree_body_def g split_beta Let_def s2_def [symmetric] s3_def [symmetric]
          s4_def [symmetric]
        split: if_splits option.splits intro!: reach_steps)
qed

lemma scan_rm_tree_loop_aux:
  assumes "rm_tree_loop env st parentfd fd name level s = Some y"
  shows "\<forall>a. reach scan_call M a s \<longrightarrow> reach scan_call M a (snd y)"
proof (rule rm_tree_loop.raw_induct
    [where P = "\<lambda>env st parentfd fd name level s y.
        \<forall>a. reach scan_call M a s \<longrightarrow> reach scan_call M a (snd y)",
     OF _ assms],
    goal_cases)
  case (1 f env st parentfd fd name level s y)
  show ?case
  proof (intro allI impI)
    fix a
    assume a: "reach scan_call M a s"
    from 1(2) obtain b where b: "rm_tree_body env st parentfd fd name level s = Some b"
      by (cases "rm_tree_body env st parentfd fd name level s") simp_all
    have rb: "reach scan_call M a (snd b)"
      using scan_rm_tree_body [OF b a] .
    from 1(2) show "reach scan_call M a (snd y)"
      using rb 1(1)
      by (auto simp: b split_beta split: if_splits)
  qed
qed

lemma rm_tree_body_ret:
  assumes "rm_tree_body env st parentfd fd name level s = Some ((fl, ret, x), s')"
  shows "ret = 0 \<or> ret = - 1"
  using assms
  by (auto simp: rm_tree_body_def split_beta Let_def vzctl_err_def
        split: if_splits option.splits prod.splits)

lemma rm_tree_loop_ret_aux:
  assumes "rm_tree_loop env st parentfd fd name level s = Some y"
  shows "fst (fst y) = 0 \<or> fst (fst y) = - 1"
proof (rule rm_tree_loop.raw_induct
    [where P = "\<lambda>env st parentfd fd name level s y. fst (fst y) = 0 \<or> fst (fst y) = - 1",
     OF _ assms],
    goal_cases)
  case (1 f env st parentfd fd name level s y)
  from 1(2) obtain fl ret x s' where
    b: "rm_tree_body env st parentfd fd name level s = Some ((fl, ret, x), s')"
    by (cases "rm_tree_body env st parentfd fd name level s") (auto split: prod.splits)
  from rm_tree_body_ret [OF b] 1(2) 1(1) show ?case
    by (auto simp: b split_beta split: if_splits prod.splits)
qed

lemma rm_tree_removal:
  assumes "rm_tree env p a = Some (res, b)"
  shows "tree_removal env p a res b"
proof -
  define opn where "opn = env (trace a) (OpenDir p)"
  define s1 where "s1 = snd (sys env (OpenDir p) a)"
  define fs where "fs = env (trace s1) (Fstat (r_ret opn))"
  define s2 where "s2 = snd (sys env (Fstat (r_ret opn)) s1)"
  have o: "sys env (OpenDir p) a = (opn, s1)"
    by (simp add: opn_def s1_def sys_def Let_def)
  have f: "sys env (Fstat (r_ret opn)) s1 = (fs, s2)"
    by (simp add: fs_def s2_def sys_def Let_def)
  have t1: "trace s1 = trace a @ [(OpenDir p, opn)]"
    by (simp add: s1_def opn_def sys_def Let_def)
  have t2: "trace s2 = trace s1 @ [(Fstat (r_ret opn), fs)]"
    by (simp add: s2_def fs_def sys_def Let_def)
  have e1: "r_ret opn = - 1 \<Longrightarrow> errno s1 = r_errno opn"
    by (simp add: s1_def opn_def sys_def Let_def)
  show ?thesis
  proof (cases "r_ret opn = - 1")
    case True
    with assms o e1 t1 show ?thesis
      by (auto simp: rm_tree_def tree_removal_def Let_def opn_def [symmetric] vzctl_err_def logger_def
            split: if_splits)
  next
    case False
    note no = False
    show ?thesis
    proof (cases "r_ret fs = 0")
      case False
      have "trace b = trace s2 @ [(Close (r_ret opn), env (trace s2) (Close (r_ret opn)))] \<and> res = - 1"
        using assms o f no False
        by (auto simp: rm_tree_def Let_def vzctl_err_def logger_def sys_def)
      with no False show ?thesis
        by (simp add: tree_removal_def Let_def opn_def [symmetric] t1 [symmetric] fs_def [symmetric]
              t2 [symmetric])
    next
      case True
      from assms o f no True obtain ret parentfd' fd' s3 where
        l: "rm_tree_loop env (r_stat fs) (- 1) (r_ret opn) [] 0 s2 = Some ((ret, parentfd', fd'), s3)"
        by (auto simp: rm_tree_def Let_def split: option.splits)
      define s4 where "s4 = (if fd' \<noteq> - 1 then snd (sys env (Close fd') s3) else s3)"
      define s5 where "s5 = (if parentfd' \<noteq> - 1 then snd (sys env (Close parentfd') s4) else s4)"
      have rb: "res = ret" "b = snd (sys env (Rmdir p) s5)"
        using assms o f no True l by (auto simp: rm_tree_def Let_def s4_def s5_def)
      have r3: "reach scan_call {} s2 s3"
        using scan_rm_tree_loop_aux [OF l, of "{}"] reach_refl by auto
      have r4: "reach scan_call {} s2 s4"
        unfolding s4_def using r3 by (auto intro!: reach_steps)
      have r5: "reach scan_call {} s2 s5"
        unfolding s5_def using r4 by (auto intro!: reach_steps)
      from r5 obtain w where w: "trace s5 = trace s2 @ w" "list_all (\<lambda>x. scan_call (fst x)) w"
        by (auto simp: reach_def)
      have tb: "trace b = trace s2 @ w @ [(Rmdir p, env (trace s2 @ w) (Rmdir p))]"
        by (simp add: rb(2) sys_def Let_def w(1))
      have rr: "res = 0 \<or> res = - 1"
        using rm_tree_loop_ret_aux [OF l] rb(1) by simp
      from no True w(2) tb rr show ?thesis
        by (auto simp: tree_removal_def Let_def opn_def [symmetric] t1 [symmetric]
              fs_def [symmetric] t2 [symmetric])
    qed
  qed
qed

lemma lookups_refl: "lookups a a"
  by (simp add: lookups_def)

lemma lookups_trans: "lookups a b \<Longrightarrow> lookups b c \<Longrightarrow> lookups a c"
  by (auto simp: lookups_def)

lemma lookups_reach: "reach lookup_call M a b \<Longrightarrow> lookups a b"
  by (auto simp: lookups_def reach_def)

lemma chain_lookups: "lookups s s1 \<Longrightarrow> chain s1 runs s' \<Longrightarrow> chain s runs s'"
  by (cases runs) (auto intro: lookups_trans)

lemma cg_destroy_run:
  assumes T: "\<forall>p s. rm_tree env p s \<noteq> None" and m: "mount_path s i \<noteq> None"
  shows "\<exists>res a b. cg_destroy H env ctid i s = Some (if res \<noteq> 0 then VZCTL_E_SYSTEM H else 0, b)
      \<and> lookups s a
      \<and> rm_tree env (fst (get_cgroup_name H env ctid i PATH_MAX b)) a = Some (res, b)
            \<and> tree_removal env (fst (get_cgroup_name H env ctid i PATH_MAX b)) a res b
      \<and> reach tree_call {} s b \<and> settled b i
      \<and> makes (trace b) = makes (trace s)"
proof -
  obtain p s1 where g: "get_cgroup_name H env ctid i PATH_MAX s = (p, s1)"
    by (metis surj_pair)
  have r1: "reach lookup_call {} s s1"
    using get_cgroup_name_reach [OF reach_refl, of "{}" s H env ctid i PATH_MAX] g by simp
  from T obtain r s' where rt: "rm_tree env p s1 = Some (r, s')"
    by (metis option.exhaust surj_pair)
  define so where "so = snd (sys env (OpenDir p) s1)"
  have r2: "reach walk_call {} so s'"
    unfolding so_def by (rule rm_tree_reach [OF rt])
  have r3: "reach tree_call {} s1 so"
    unfolding so_def by (rule reach_sys [OF reach_refl]) simp
  have r4: "reach tree_call {} s1 s'"
    using reach_trans [OF r3 reach_tree_walk [OF r2]] .
  have r: "reach tree_call {} s s'"
    using reach_trans [OF reach_tree_lookup [OF r1] r4] .
  have st: "fst (get_cgroup_name H env ctid i PATH_MAX s') = p"
    by (rule get_cgroup_name_stable [OF g r4 m])
  have mk: "makes (trace s') = makes (trace s)"
    using makes_walk [OF r2] makes_lookup [OF r1]
    by (simp add: so_def makes_sys_OpenDir)
  have d: "cg_destroy H env ctid i s = Some (if r \<noteq> 0 then VZCTL_E_SYSTEM H else 0, s')"
    using m by (auto simp: cg_destroy_def g rt)
  have st': "settled s' i"
    using get_cgroup_name_settles [OF g m] settled_reach [OF _ r4] by blast
  have tr: "rm_tree env (fst (get_cgroup_name H env ctid i PATH_MAX s')) s1 = Some (r, s')
            \<and> tree_removal env (fst (get_cgroup_name H env ctid i PATH_MAX s')) s1 r s'"
    using rm_tree_removal [OF rt] rt by (simp add: st)
  from d lookups_reach [OF r1] tr r st' mk show ?thesis
    by blast
qed

lemma destroy_loop_runs:
  assumes T: "\<forall>p s. rm_tree env p s \<noteq> None"
  shows "distinct is \<Longrightarrow> \<forall>i\<in>set is. i < length cg_ctl_map \<Longrightarrow>
     \<exists>r s' runs. cg_destroy_cgroup_loop H env ctid is ret s = Some (r, s')
       \<and> reach tree_call (set is) s s'
       \<and> map fst runs = filter (\<lambda>i. mount_path s' i \<noteq> None) is
       \<and> chain s runs s'
       \<and> list_all (\<lambda>(i, a, res, b).
            rm_tree env (fst (get_cgroup_name H env ctid i PATH_MAX s')) a = Some (res, b)
            \<and> tree_removal env (fst (get_cgroup_name H env ctid i PATH_MAX s')) a res b) runs
       \<and> makes (trace s') = makes (trace s)
       \<and> r = (if list_ex (\<lambda>(i, a, res, b). res \<noteq> 0) runs then ret OR VZCTL_E_SYSTEM H else ret)"
proof (induction "is" arbitrary: ret s)
  case Nil
  show ?case by (simp add: reach_refl lookups_refl)
next
  case (Cons i "is")
  from Cons.prems have i: "i < length cg_ctl_map" and ni: "i \<notin> set is"
    and d: "distinct is" and b: "\<forall>i\<in>set is. i < length cg_ctl_map"
    by simp_all
  obtain rc ctl s1 where c: "cg_get_ctl env (subsys (cg_ctl_map ! i)) s = ((rc, ctl), s1)"
    by (metis surj_pair)
  note res = cg_get_ctl_result [OF i c]
  have r1: "reach lookup_call {i} s s1"
    using cg_get_ctl_reach [OF i reach_refl, of "{i}" s env] c by simp
  have r1': "reach tree_call (set (i # is)) s s1"
    using reach_weaken [OF r1, of tree_call "set (i # is)"] by (simp add: tree_call_lookup)
  show ?case
  proof (cases "rc = 0")
    case False
    with res(2) have mi: "mount_path s1 i = None" by simp
    from Cons.IH [OF d b, of ret s1] obtain r s' runs where
      ih: "cg_destroy_cgroup_loop H env ctid is ret s1 = Some (r, s')"
        "reach tree_call (set is) s1 s'"
        "map fst runs = filter (\<lambda>i. mount_path s' i \<noteq> None) is"
        "chain s1 runs s'"
        "list_all (\<lambda>(i, a, res, b).
            rm_tree env (fst (get_cgroup_name H env ctid i PATH_MAX s')) a = Some (res, b)
            \<and> tree_removal env (fst (get_cgroup_name H env ctid i PATH_MAX s')) a res b) runs"
        "makes (trace s') = makes (trace s1)"
        "r = (if list_ex (\<lambda>(i, a, res, b). res \<noteq> 0) runs then ret OR VZCTL_E_SYSTEM H else ret)"
      by blast
    have mi': "mount_path s' i = None"
      using reach_mount_path_out [OF ih(2) ni] mi by simp
    have r2: "reach tree_call (set (i # is)) s s'"
      using reach_trans [OF r1' reach_weaken [OF ih(2), of tree_call "set (i # is)"]] by auto
    have l: "cg_destroy_cgroup_loop H env ctid (i # is) ret s = Some (r, s')"
      using False by (simp add: c ih(1))
    have ch: "chain s runs s'"
      using chain_lookups [OF lookups_reach [OF r1] ih(4)] .
    show ?thesis
      using l r2 ih(3,5,6,7) ch mi' makes_lookup [OF r1]
      by (intro exI [of _ r] exI [of _ s'] exI [of _ runs]) simp
  next
    case True
    with res(2) have mi: "mount_path s1 i \<noteq> None" by simp
    from cg_destroy_run [OF T mi, of H ctid] obtain rs a2 s2 where
      st: "cg_destroy H env ctid i s1 = Some (if rs \<noteq> 0 then VZCTL_E_SYSTEM H else 0, s2)"
        "lookups s1 a2"
        "rm_tree env (fst (get_cgroup_name H env ctid i PATH_MAX s2)) a2 = Some (rs, s2)
            \<and> tree_removal env (fst (get_cgroup_name H env ctid i PATH_MAX s2)) a2 rs s2"
        "reach tree_call {} s1 s2" "settled s2 i"
        "makes (trace s2) = makes (trace s1)"
      by blast
    define rr where "rr = (if rs \<noteq> 0 then VZCTL_E_SYSTEM H else 0)"
    from Cons.IH [OF d b, of "ret OR rr" s2] obtain r s' runs where
      ih: "cg_destroy_cgroup_loop H env ctid is (ret OR rr) s2 = Some (r, s')"
        "reach tree_call (set is) s2 s'"
        "map fst runs = filter (\<lambda>i. mount_path s' i \<noteq> None) is"
        "chain s2 runs s'"
        "list_all (\<lambda>(i, a, res, b).
            rm_tree env (fst (get_cgroup_name H env ctid i PATH_MAX s')) a = Some (res, b)
            \<and> tree_removal env (fst (get_cgroup_name H env ctid i PATH_MAX s')) a res b) runs"
        "makes (trace s') = makes (trace s2)"
        "r = (if list_ex (\<lambda>(i, a, res, b). res \<noteq> 0) runs
              then (ret OR rr) OR VZCTL_E_SYSTEM H else ret OR rr)"
      by blast
    have m2: "mount_path s2 i \<noteq> None"
      using reach_mount_path_set [OF st(4) mi] mi by simp
    have mi': "mount_path s' i \<noteq> None"
      using reach_mount_path_set [OF ih(2) m2] m2 by simp
    have p: "fst (get_cgroup_name H env ctid i PATH_MAX s')
        = fst (get_cgroup_name H env ctid i PATH_MAX s2)"
      using get_cgroup_name_settled [OF st(5) ih(2)] .
    have r2: "reach tree_call (set (i # is)) s s'"
      using reach_trans [OF r1' reach_trans [OF reach_weaken [OF st(4), of tree_call "set (i # is)"]
            reach_weaken [OF ih(2), of tree_call "set (i # is)"]]]
      by auto
    have l: "cg_destroy_cgroup_loop H env ctid (i # is) ret s = Some (r, s')"
      using True res(1) ih(1) by (auto simp: c st(1) rr_def)
    have idem: "(ret OR VZCTL_E_SYSTEM H) OR VZCTL_E_SYSTEM H = ret OR VZCTL_E_SYSTEM H"
      by (simp add: or.assoc)
    have ch: "chain s ((i, a2, rs, s2) # runs) s'"
      using lookups_trans [OF lookups_reach [OF r1] st(2)] ih(4) by simp
    have mf: "map fst ((i, a2, rs, s2) # runs) = filter (\<lambda>i. mount_path s' i \<noteq> None) (i # is)"
      using ih(3) mi' by simp
    have la: "list_all (\<lambda>(i, a, res, b).
            rm_tree env (fst (get_cgroup_name H env ctid i PATH_MAX s')) a = Some (res, b)
            \<and> tree_removal env (fst (get_cgroup_name H env ctid i PATH_MAX s')) a res b)
          ((i, a2, rs, s2) # runs)"
      using ih(5) st(3) p by simp
    have mk: "makes (trace s') = makes (trace s)"
      using ih(6) st(6) makes_lookup [OF r1] by simp
    have v: "r = (if list_ex (\<lambda>(i, a, res, b). res \<noteq> 0) ((i, a2, rs, s2) # runs)
                  then ret OR VZCTL_E_SYSTEM H else ret)"
      using ih(7) idem by (auto simp: rr_def)
    show ?thesis
      using l r2 ch mf la mk v
      by (intro exI [of _ r] exI [of _ s'] exI [of _ "(i, a2, rs, s2) # runs"])
         (simp del: chain.simps)
  qed
qed

lemma upt_13_props: "distinct [0..<length cg_ctl_map] \<and> (\<forall>i\<in>set [0..<length cg_ctl_map]. i < length cg_ctl_map)"
  by simp

lemmas ctl_defs = cg_get_ctl_def find_cg_ctl_def cg_ctl_map_def
      get_mount_path_def has_substr_def cg_is_systemd_def get_cgroup_name_def cg_get_slice_name_def
      str_or_null_def CG_CPU_def CG_CPUSET_def CG_NET_CLS_def CG_MEMORY_def
        CG_DEVICES_def CG_BLKIO_def CG_FREEZER_def CG_UB_def CG_VE_def CG_PERF_EVENT_def
        CG_HUGETLB_def CG_PIDS_def

lemma rm_tree_env_mkdir_fails: "rm_tree env_mkdir_fails p s \<noteq> None"
  by (simp add: rm_tree_def rm_tree_loop.simps rm_tree_body_def goto_next_dir_def
        sys_def env_mkdir_fails_def ok_def Let_def ENOENT_def PATH_MAX_def)

subsection \<open>cg_destroy_cgroup\<close>

text \<open>
  Claim C6.  Where every \<open>rm_tree\<close> returns, \<open>cg_destroy_cgroup\<close> returns.  Its calls
  are one run of \<open>rm_tree\<close> for every controller whose mount resolves, in table order,
  whatever the earlier runs returned, with calls of the mount lookup only before, between
  and after the runs: a controller whose mount does not resolve is skipped, and nothing is
  created.  Each run is \<open>rm_tree\<close> on the directory of its controller and does what
  \<open>tree_removal\<close> says: a missing directory gives 0; a directory that cannot be opened
  for another reason, or whose \<open>fstat\<close> fails, gives -1; otherwise the walk is made and
  \<open>rmdir\<close> is called on the directory.  The result is \<open>VZCTL_E_SYSTEM\<close> if a run
  returned a value other than 0, and 0 if none did.
\<close>

theorem cg_destroy_cgroup_aggregates:
  assumes "\<forall>p s. rm_tree env p s \<noteq> None"
  shows "\<exists>r s' runs. cg_destroy_cgroup H env ctid s = Some (r, s')
       \<and> map fst runs = filter (\<lambda>i. mount_path s' i \<noteq> None) [0..<length cg_ctl_map]
       \<and> chain s runs s'
       \<and> list_all (\<lambda>(i, a, res, b).
            rm_tree env (fst (get_cgroup_name H env ctid i PATH_MAX s')) a = Some (res, b)
            \<and> tree_removal env (fst (get_cgroup_name H env ctid i PATH_MAX s')) a res b) runs
       \<and> makes (trace s') = makes (trace s)
       \<and> r = (if list_ex (\<lambda>(i, a, res, b). res \<noteq> 0) runs then VZCTL_E_SYSTEM H else 0)"
  using destroy_loop_runs [OF assms, of "[0..<length cg_ctl_map]" H ctid 0 s] upt_13_props
  unfolding cg_destroy_cgroup_def by auto

lemma rm_tree_env_fstat_fails: "rm_tree env_fstat_fails p s \<noteq> None"
  by (simp add: rm_tree_def rm_tree_loop.simps rm_tree_body_def goto_next_dir_def
        sys_def env_fstat_fails_def ok_def failing_def Let_def ENOENT_def PATH_MAX_def)

lemmas run_defs = cg_new_cgroup_def cg_destroy_cgroup_def cg_create_def cg_destroy_def ctl_defs
      opens_def makes_def removals_def rmdirs_def List.map_filter_def eval_nat_numeral
      rm_tree_def rm_tree_loop.simps rm_tree_body_def goto_next_dir_def
      sys_def host_mounts_def ok_def failing_def
      vzctl_err_def logger_def s0_def H0_def Let_def upt_rec PATH_MAX_def ENOENT_def EBUSY_def

lemma cg_destroy_cgroup_cases:
  "(case cg_destroy_cgroup H0 env_eacces ''101'' s0 of
      None \<Rightarrow> False
    | Some (r, s') \<Rightarrow> r = 3 \<and> map fst (opens (trace s')) =
        [''/sys/fs/cgroup/cpu,cpuacct/machine.slice/101'',
         ''/sys/fs/cgroup/net_cls/machine.slice/101'',
         ''/sys/fs/cgroup/memory/machine.slice/101'',
         ''/sys/fs/cgroup/ve/101''])"
  "(case cg_destroy_cgroup H0 env_fstat_fails ''101'' s0 of
      None \<Rightarrow> False
    | Some (r, s') \<Rightarrow> r = 3 \<and> rmdirs (trace s') =
        [(''/sys/fs/cgroup/net_cls/machine.slice/101'', 0),
         (''/sys/fs/cgroup/memory/machine.slice/101'', 0),
         (''/sys/fs/cgroup/ve/101'', 0)])"
  "(case cg_destroy_cgroup H0 env_mkdir_fails ''101'' s0 of
      None \<Rightarrow> False
    | Some (r, s') \<Rightarrow> r = 0 \<and> rmdirs (trace s') =
        [(''/sys/fs/cgroup/cpu,cpuacct/machine.slice/101'', 0),
         (''/sys/fs/cgroup/net_cls/machine.slice/101'', 0),
         (''/sys/fs/cgroup/memory/machine.slice/101'', 0),
         (''/sys/fs/cgroup/ve/101'', 0)])"
  "(case cg_destroy_cgroup H0 env_absent ''101'' s0 of
      None \<Rightarrow> False
    | Some (r, s') \<Rightarrow> removals (trace s') = [] \<and> map fst (opens (trace s')) =
        [''/sys/fs/cgroup/cpu,cpuacct/machine.slice/101'',
         ''/sys/fs/cgroup/net_cls/machine.slice/101'',
         ''/sys/fs/cgroup/memory/machine.slice/101'',
         ''/sys/fs/cgroup/ve/101''])"
     apply (simp add: run_defs env_eacces_def)
    apply (simp add: run_defs env_fstat_fails_def)
   apply (simp add: run_defs env_mkdir_fails_def)
  apply (simp add: run_defs env_absent_def)
  done

theorem cg_destroy_cgroup_aggregates_witness:
  "(\<exists>s'. cg_destroy_cgroup H0 env_absent ''101'' s0 = Some (0, s')
        \<and> removals (trace s') = []
        \<and> map fst (opens (trace s')) =
            [''/sys/fs/cgroup/cpu,cpuacct/machine.slice/101'',
             ''/sys/fs/cgroup/net_cls/machine.slice/101'',
             ''/sys/fs/cgroup/memory/machine.slice/101'',
             ''/sys/fs/cgroup/ve/101''])
   \<and> (\<exists>s'. cg_destroy_cgroup H0 env_eacces ''101'' s0 = Some (3, s')
        \<and> map fst (opens (trace s')) =
            [''/sys/fs/cgroup/cpu,cpuacct/machine.slice/101'',
             ''/sys/fs/cgroup/net_cls/machine.slice/101'',
             ''/sys/fs/cgroup/memory/machine.slice/101'',
             ''/sys/fs/cgroup/ve/101''])
   \<and> (\<exists>s'. cg_destroy_cgroup H0 env_fstat_fails ''101'' s0 = Some (3, s')
        \<and> rmdirs (trace s') =
            [(''/sys/fs/cgroup/net_cls/machine.slice/101'', 0),
             (''/sys/fs/cgroup/memory/machine.slice/101'', 0),
             (''/sys/fs/cgroup/ve/101'', 0)])
   \<and> (\<exists>s'. cg_destroy_cgroup H0 env_mkdir_fails ''101'' s0 = Some (0, s')
        \<and> rmdirs (trace s') =
            [(''/sys/fs/cgroup/cpu,cpuacct/machine.slice/101'', 0),
             (''/sys/fs/cgroup/net_cls/machine.slice/101'', 0),
             (''/sys/fs/cgroup/memory/machine.slice/101'', 0),
             (''/sys/fs/cgroup/ve/101'', 0)])"
proof (intro conjI)
  have T: "\<forall>p s. rm_tree env_absent p s \<noteq> None"
    by (simp add: rm_tree_open_fails env_absent_def failing_def)
  from cg_destroy_cgroup_aggregates [OF T, of H0 "''101''" s0]
  obtain r s' runs where
    t: "cg_destroy_cgroup H0 env_absent ''101'' s0 = Some (r, s')"
      "list_all (\<lambda>(i, a, res, b).
         rm_tree env_absent (fst (get_cgroup_name H0 env_absent ''101'' i PATH_MAX s')) a = Some (res, b)
            \<and> tree_removal env_absent (fst (get_cgroup_name H0 env_absent ''101'' i PATH_MAX s')) a res b)
         runs"
      "r = (if list_ex (\<lambda>(i, a, res, b). res \<noteq> 0) runs then VZCTL_E_SYSTEM H0 else 0)"
    by blast
  from t(2) have "list_all (\<lambda>(i, a, res, b). res = 0) runs"
    by (auto simp: list_all_iff tree_removal_def Let_def env_absent_def failing_def)
  then have "\<not> list_ex (\<lambda>(i, a, res, b). res \<noteq> 0) runs"
    by (auto simp: list_all_iff list_ex_iff)
  with t(3) have "r = 0" by simp
  with t(1) cg_destroy_cgroup_cases(4) show
    "\<exists>s'. cg_destroy_cgroup H0 env_absent ''101'' s0 = Some (0, s')
        \<and> removals (trace s') = []
        \<and> map fst (opens (trace s')) =
            [''/sys/fs/cgroup/cpu,cpuacct/machine.slice/101'',
             ''/sys/fs/cgroup/net_cls/machine.slice/101'',
             ''/sys/fs/cgroup/memory/machine.slice/101'',
             ''/sys/fs/cgroup/ve/101'']"
    by simp
next
  have T: "\<forall>p s. rm_tree env_eacces p s \<noteq> None"
    by (simp add: rm_tree_open_fails env_eacces_def failing_def)
  from cg_destroy_cgroup_aggregates [OF T, of H0 "''101''" s0]
  obtain r s' where "cg_destroy_cgroup H0 env_eacces ''101'' s0 = Some (r, s')"
    by blast
  with cg_destroy_cgroup_cases(1) show
    "\<exists>s'. cg_destroy_cgroup H0 env_eacces ''101'' s0 = Some (3, s')
        \<and> map fst (opens (trace s')) =
            [''/sys/fs/cgroup/cpu,cpuacct/machine.slice/101'',
             ''/sys/fs/cgroup/net_cls/machine.slice/101'',
             ''/sys/fs/cgroup/memory/machine.slice/101'',
             ''/sys/fs/cgroup/ve/101'']"
    by simp
next
  have T: "\<forall>p s. rm_tree env_fstat_fails p s \<noteq> None"
    using rm_tree_env_fstat_fails by blast
  from cg_destroy_cgroup_aggregates [OF T, of H0 "''101''" s0]
  obtain r s' where "cg_destroy_cgroup H0 env_fstat_fails ''101'' s0 = Some (r, s')"
    by blast
  with cg_destroy_cgroup_cases(2) show
    "\<exists>s'. cg_destroy_cgroup H0 env_fstat_fails ''101'' s0 = Some (3, s')
        \<and> rmdirs (trace s') =
            [(''/sys/fs/cgroup/net_cls/machine.slice/101'', 0),
             (''/sys/fs/cgroup/memory/machine.slice/101'', 0),
             (''/sys/fs/cgroup/ve/101'', 0)]"
    by simp
next
  have T: "\<forall>p s. rm_tree env_mkdir_fails p s \<noteq> None"
    using rm_tree_env_mkdir_fails by blast
  from cg_destroy_cgroup_aggregates [OF T, of H0 "''101''" s0]
  obtain r s' where "cg_destroy_cgroup H0 env_mkdir_fails ''101'' s0 = Some (r, s')"
    by blast
  with cg_destroy_cgroup_cases(3) show
    "\<exists>s'. cg_destroy_cgroup H0 env_mkdir_fails ''101'' s0 = Some (0, s')
        \<and> rmdirs (trace s') =
            [(''/sys/fs/cgroup/cpu,cpuacct/machine.slice/101'', 0),
             (''/sys/fs/cgroup/net_cls/machine.slice/101'', 0),
             (''/sys/fs/cgroup/memory/machine.slice/101'', 0),
             (''/sys/fs/cgroup/ve/101'', 0)]"
    by simp
qed

subsection \<open>cg_new_cgroup\<close>

lemma makes_sys_MakeDir:
  "makes (trace (snd (sys env (MakeDir p) s))) = makes (trace s) @ [(p, r_ret (env (trace s) (MakeDir p)))]"
  by (simp add: makes_def sys_def Let_def map_filter_append List.map_filter_def)

lemma opens_sys_MakeDir: "opens (trace (snd (sys env (MakeDir p) s))) = opens (trace s)"
  by (simp add: opens_def sys_def Let_def map_filter_append List.map_filter_def)

lemma removals_sys_MakeDir: "removals (trace (snd (sys env (MakeDir p) s))) = removals (trace s)"
  by (simp add: removals_def sys_def Let_def map_filter_append List.map_filter_def)

lemma opens_logger: "opens (trace (logger l e m s)) = opens (trace s)"
  by (simp add: logger_def)

lemma cg_create_step:
  assumes m: "mount_path s i \<noteq> None"
  shows "\<exists>rc s'. cg_create H env ctid i s = (rc, s')
      \<and> reach tree_call {} s s' \<and> settled s' i
      \<and> makes (trace s') = makes (trace s) @ [(fst (get_cgroup_name H env ctid i PATH_MAX s'), rc)]
      \<and> opens (trace s') = opens (trace s)
      \<and> removals (trace s') = removals (trace s)"
proof -
  obtain p s1 where g: "get_cgroup_name H env ctid i PATH_MAX s = (p, s1)"
    by (metis surj_pair)
  have r1: "reach lookup_call {} s s1"
    using get_cgroup_name_reach [OF reach_refl, of "{}" s H env ctid i PATH_MAX] g by simp
  define sl where "sl = logger 3 0 (''Create cgroup '' @ p) s1"
  define s' where "s' = snd (sys env (MakeDir p) sl)"
  have r2: "reach tree_call {} s1 s'"
    unfolding s'_def sl_def by (intro reach_steps reach_refl) simp
  have r: "reach tree_call {} s s'"
    using reach_trans [OF reach_tree_lookup [OF r1] r2] .
  have se: "settled s' i"
    using settled_reach [OF get_cgroup_name_settles [OF g m] r2] .
  have st: "fst (get_cgroup_name H env ctid i PATH_MAX s') = p"
    using get_cgroup_name_settled [OF get_cgroup_name_settles [OF g m] r2, of H env ctid PATH_MAX]
      get_cgroup_name_settled [OF get_cgroup_name_settles [OF g m] reach_refl, of H env ctid PATH_MAX]
      g get_cgroup_name_stable [OF g reach_refl m]
    by simp
  have c: "cg_create H env ctid i s = (r_ret (env (trace sl) (MakeDir p)), s')"
    by (simp add: cg_create_def g s'_def sl_def sys_def Let_def)
  have mk: "makes (trace s') = makes (trace s) @ [(p, r_ret (env (trace sl) (MakeDir p)))]"
    using makes_lookup [OF r1] by (simp add: s'_def makes_sys_MakeDir) (simp add: sl_def logger_def)
  have o: "opens (trace s') = opens (trace s)"
    using opens_lookup [OF r1] by (simp add: s'_def opens_sys_MakeDir) (simp add: sl_def logger_def)
  have rm: "removals (trace s') = removals (trace s)"
    using removals_lookup [OF r1] by (simp add: s'_def removals_sys_MakeDir) (simp add: sl_def logger_def)
  show ?thesis
    using c r se mk o rm st by simp
qed

lemma create_loop:
  "distinct is \<Longrightarrow> \<forall>i\<in>set is. i < length cg_ctl_map \<Longrightarrow>
     \<exists>r e s1 mk. cg_new_cgroup_loop H env ctid is s = Some ((r, e), s1)
       \<and> reach tree_call (set is) s s1
       \<and> opens (trace s1) = opens (trace s)
       \<and> removals (trace s1) = removals (trace s)
       \<and> makes (trace s1) = makes (trace s) @ mk
       \<and> (e = None \<longrightarrow> r = 0
             \<and> mk = map (\<lambda>j. (fst (get_cgroup_name H env ctid j PATH_MAX s1), 0))
                      (filter (\<lambda>j. mount_path s1 j \<noteq> None) is)
             \<and> (\<forall>j\<in>set is. mount_path s1 j \<noteq> None \<longrightarrow> settled s1 j))
       \<and> (\<forall>i. e = Some i \<longrightarrow> r \<noteq> 0
             \<and> (\<exists>pre post. is = pre @ i # post
                   \<and> (\<forall>j\<in>set pre. mount_path s1 j \<noteq> None \<longrightarrow> settled s1 j)
                   \<and> ((mk = map (\<lambda>j. (fst (get_cgroup_name H env ctid j PATH_MAX s1), 0))
                               (filter (\<lambda>j. mount_path s1 j \<noteq> None) pre)
                         \<and> r = - 1 \<and> mount_path s1 i = None)
                       \<or> (mk = map (\<lambda>j. (fst (get_cgroup_name H env ctid j PATH_MAX s1), 0))
                                 (filter (\<lambda>j. mount_path s1 j \<noteq> None) pre)
                               @ [(fst (get_cgroup_name H env ctid i PATH_MAX s1), r)]
                           \<and> settled s1 i))))"
proof (induction "is" arbitrary: s)
  case Nil
  show ?case by (simp add: reach_refl)
next
  case (Cons i "is")
  from Cons.prems have i: "i < length cg_ctl_map" and ni: "i \<notin> set is"
    and d: "distinct is" and b: "\<forall>i\<in>set is. i < length cg_ctl_map"
    by simp_all
  obtain rc ctl s1 where c: "cg_get_ctl env (subsys (cg_ctl_map ! i)) s = ((rc, ctl), s1)"
    by (metis surj_pair)
  note res = cg_get_ctl_result [OF i c]
  have r1: "reach lookup_call {i} s s1"
    using cg_get_ctl_reach [OF i reach_refl, of "{i}" s env] c by simp
  have r1': "reach tree_call (set (i # is)) s s1"
    using reach_weaken [OF r1, of tree_call "set (i # is)"] by (simp add: tree_call_lookup)
  note obs1 = opens_lookup [OF r1] makes_lookup [OF r1] removals_lookup [OF r1]
  consider (io) "rc = - 1" | (skip) "rc = 1" | (go) "rc = 0"
    using res(3) by blast
  then show ?case
  proof cases
    case io
    with res(2) have mi: "mount_path s1 i = None" by simp
    have l: "cg_new_cgroup_loop H env ctid (i # is) s = Some ((- 1, Some i), s1)"
      using io by (simp add: c)
    have ex: "\<exists>pre post. i # is = pre @ i # post
                   \<and> (\<forall>j\<in>set pre. mount_path s1 j \<noteq> None \<longrightarrow> settled s1 j)
                   \<and> (([] = map (\<lambda>j. (fst (get_cgroup_name H env ctid j PATH_MAX s1), 0))
                               (filter (\<lambda>j. mount_path s1 j \<noteq> None) pre)
                         \<and> (- 1 :: int) = - 1 \<and> mount_path s1 i = None)
                       \<or> ([] = map (\<lambda>j. (fst (get_cgroup_name H env ctid j PATH_MAX s1), 0))
                                 (filter (\<lambda>j. mount_path s1 j \<noteq> None) pre)
                               @ [(fst (get_cgroup_name H env ctid i PATH_MAX s1), - 1)]
                           \<and> settled s1 i))"
      by (rule exI [of _ "[]"], rule exI [of _ "is"]) (simp add: mi)
    show ?thesis
      using l r1' obs1 ex
      by (intro exI [of _ "- 1"] exI [of _ "Some i"] exI [of _ s1] exI [of _ "[]"])
         (simp del: cg_new_cgroup_loop.simps)
  next
    case skip
    with res(2) have mi: "mount_path s1 i = None" by simp
    from Cons.IH [OF d b, of s1] obtain r e s2 mk where
      ih: "cg_new_cgroup_loop H env ctid is s1 = Some ((r, e), s2)"
        "reach tree_call (set is) s1 s2"
        "opens (trace s2) = opens (trace s1)"
        "removals (trace s2) = removals (trace s1)"
        "makes (trace s2) = makes (trace s1) @ mk"
        "e = None \<longrightarrow> r = 0
             \<and> mk = map (\<lambda>j. (fst (get_cgroup_name H env ctid j PATH_MAX s2), 0))
                      (filter (\<lambda>j. mount_path s2 j \<noteq> None) is)
             \<and> (\<forall>j\<in>set is. mount_path s2 j \<noteq> None \<longrightarrow> settled s2 j)"
        "\<forall>i. e = Some i \<longrightarrow> r \<noteq> 0
             \<and> (\<exists>pre post. is = pre @ i # post
                   \<and> (\<forall>j\<in>set pre. mount_path s2 j \<noteq> None \<longrightarrow> settled s2 j)
                   \<and> ((mk = map (\<lambda>j. (fst (get_cgroup_name H env ctid j PATH_MAX s2), 0))
                               (filter (\<lambda>j. mount_path s2 j \<noteq> None) pre)
                         \<and> r = - 1 \<and> mount_path s2 i = None)
                       \<or> (mk = map (\<lambda>j. (fst (get_cgroup_name H env ctid j PATH_MAX s2), 0))
                                 (filter (\<lambda>j. mount_path s2 j \<noteq> None) pre)
                               @ [(fst (get_cgroup_name H env ctid i PATH_MAX s2), r)]
                           \<and> settled s2 i)))"
      by blast
    have mi': "mount_path s2 i = None"
      using reach_mount_path_out [OF ih(2) ni] mi by simp
    have r2: "reach tree_call (set (i # is)) s s2"
      using reach_trans [OF r1' reach_weaken [OF ih(2), of tree_call "set (i # is)"]] by auto
    have l: "cg_new_cgroup_loop H env ctid (i # is) s = Some ((r, e), s2)"
      using skip by (simp add: c ih(1))
    have e2: "\<forall>k. e = Some k \<longrightarrow> r \<noteq> 0
             \<and> (\<exists>pre post. i # is = pre @ k # post
                   \<and> (\<forall>j\<in>set pre. mount_path s2 j \<noteq> None \<longrightarrow> settled s2 j)
                   \<and> ((mk = map (\<lambda>j. (fst (get_cgroup_name H env ctid j PATH_MAX s2), 0))
                               (filter (\<lambda>j. mount_path s2 j \<noteq> None) pre)
                         \<and> r = - 1 \<and> mount_path s2 k = None)
                       \<or> (mk = map (\<lambda>j. (fst (get_cgroup_name H env ctid j PATH_MAX s2), 0))
                                 (filter (\<lambda>j. mount_path s2 j \<noteq> None) pre)
                               @ [(fst (get_cgroup_name H env ctid k PATH_MAX s2), r)]
                           \<and> settled s2 k)))"
    proof (intro allI impI)
      fix k assume "e = Some k"
      with ih(7) obtain pre post where pp: "r \<noteq> 0" "is = pre @ k # post"
          "\<forall>j\<in>set pre. mount_path s2 j \<noteq> None \<longrightarrow> settled s2 j"
          "(mk = map (\<lambda>j. (fst (get_cgroup_name H env ctid j PATH_MAX s2), 0))
                               (filter (\<lambda>j. mount_path s2 j \<noteq> None) pre)
                         \<and> r = - 1 \<and> mount_path s2 k = None)
                       \<or> (mk = map (\<lambda>j. (fst (get_cgroup_name H env ctid j PATH_MAX s2), 0))
                                 (filter (\<lambda>j. mount_path s2 j \<noteq> None) pre)
                               @ [(fst (get_cgroup_name H env ctid k PATH_MAX s2), r)]
                           \<and> settled s2 k)"
        by blast
      show "r \<noteq> 0
             \<and> (\<exists>pre post. i # is = pre @ k # post
                   \<and> (\<forall>j\<in>set pre. mount_path s2 j \<noteq> None \<longrightarrow> settled s2 j)
                   \<and> ((mk = map (\<lambda>j. (fst (get_cgroup_name H env ctid j PATH_MAX s2), 0))
                               (filter (\<lambda>j. mount_path s2 j \<noteq> None) pre)
                         \<and> r = - 1 \<and> mount_path s2 k = None)
                       \<or> (mk = map (\<lambda>j. (fst (get_cgroup_name H env ctid j PATH_MAX s2), 0))
                                 (filter (\<lambda>j. mount_path s2 j \<noteq> None) pre)
                               @ [(fst (get_cgroup_name H env ctid k PATH_MAX s2), r)]
                           \<and> settled s2 k)))"
        using pp mi'
        by (intro conjI exI [of _ "i # pre"] exI [of _ post]) auto
    qed
    show ?thesis
      using l r2 ih(3-6) obs1 mi' e2
      by (intro exI [of _ r] exI [of _ e] exI [of _ s2] exI [of _ mk]) simp
  next
    case go
    with res(2) have mi: "mount_path s1 i \<noteq> None" by simp
    from cg_create_step [OF mi, of H env ctid] obtain rc' sc where
      cr: "cg_create H env ctid i s1 = (rc', sc)"
        "reach tree_call {} s1 sc" "settled sc i"
        "makes (trace sc) = makes (trace s1) @ [(fst (get_cgroup_name H env ctid i PATH_MAX sc), rc')]"
        "opens (trace sc) = opens (trace s1)"
        "removals (trace sc) = removals (trace s1)"
      by blast
    have rc: "reach tree_call (set (i # is)) s sc"
      using reach_trans [OF r1' reach_weaken [OF cr(2), of tree_call "set (i # is)"]] by auto
    show ?thesis
    proof (cases "rc' = 0")
      case False
      have l: "cg_new_cgroup_loop H env ctid (i # is) s = Some ((rc', Some i), sc)"
        using go False res(1) by (simp add: c cr(1))
      have ex: "\<exists>pre post. i # is = pre @ i # post
                   \<and> (\<forall>j\<in>set pre. mount_path sc j \<noteq> None \<longrightarrow> settled sc j)
                   \<and> (([(fst (get_cgroup_name H env ctid i PATH_MAX sc), rc')]
                           = map (\<lambda>j. (fst (get_cgroup_name H env ctid j PATH_MAX sc), 0))
                               (filter (\<lambda>j. mount_path sc j \<noteq> None) pre)
                         \<and> rc' = - 1 \<and> mount_path sc i = None)
                       \<or> ([(fst (get_cgroup_name H env ctid i PATH_MAX sc), rc')]
                             = map (\<lambda>j. (fst (get_cgroup_name H env ctid j PATH_MAX sc), 0))
                                 (filter (\<lambda>j. mount_path sc j \<noteq> None) pre)
                               @ [(fst (get_cgroup_name H env ctid i PATH_MAX sc), rc')]
                           \<and> settled sc i))"
        by (rule exI [of _ "[]"], rule exI [of _ "is"]) (simp add: cr(3))
      show ?thesis
        using l rc cr(4-6) obs1 False ex
        by (intro exI [of _ rc'] exI [of _ "Some i"] exI [of _ sc]
              exI [of _ "[(fst (get_cgroup_name H env ctid i PATH_MAX sc), rc')]"])
           (simp del: cg_new_cgroup_loop.simps)
    next
      case True
      from Cons.IH [OF d b, of sc] obtain r e s2 mk where
        ih: "cg_new_cgroup_loop H env ctid is sc = Some ((r, e), s2)"
          "reach tree_call (set is) sc s2"
          "opens (trace s2) = opens (trace sc)"
          "removals (trace s2) = removals (trace sc)"
          "makes (trace s2) = makes (trace sc) @ mk"
          "e = None \<longrightarrow> r = 0
               \<and> mk = map (\<lambda>j. (fst (get_cgroup_name H env ctid j PATH_MAX s2), 0))
                        (filter (\<lambda>j. mount_path s2 j \<noteq> None) is)
               \<and> (\<forall>j\<in>set is. mount_path s2 j \<noteq> None \<longrightarrow> settled s2 j)"
          "\<forall>i. e = Some i \<longrightarrow> r \<noteq> 0
               \<and> (\<exists>pre post. is = pre @ i # post
                     \<and> (\<forall>j\<in>set pre. mount_path s2 j \<noteq> None \<longrightarrow> settled s2 j)
                     \<and> ((mk = map (\<lambda>j. (fst (get_cgroup_name H env ctid j PATH_MAX s2), 0))
                                 (filter (\<lambda>j. mount_path s2 j \<noteq> None) pre)
                           \<and> r = - 1 \<and> mount_path s2 i = None)
                         \<or> (mk = map (\<lambda>j. (fst (get_cgroup_name H env ctid j PATH_MAX s2), 0))
                                   (filter (\<lambda>j. mount_path s2 j \<noteq> None) pre)
                                 @ [(fst (get_cgroup_name H env ctid i PATH_MAX s2), r)]
                             \<and> settled s2 i)))"
        by blast
      have se: "settled s2 i"
        using settled_reach [OF cr(3) ih(2)] .
      then have mi': "mount_path s2 i \<noteq> None" by (simp add: settled_def)
      have p: "fst (get_cgroup_name H env ctid i PATH_MAX s2)
          = fst (get_cgroup_name H env ctid i PATH_MAX sc)"
        using get_cgroup_name_settled [OF cr(3) ih(2)] .
      have r2: "reach tree_call (set (i # is)) s s2"
        using reach_trans [OF rc reach_weaken [OF ih(2), of tree_call "set (i # is)"]] by auto
      have l: "cg_new_cgroup_loop H env ctid (i # is) s = Some ((r, e), s2)"
        using go True res(1) by (simp add: c cr(1) ih(1))
      have mk': "makes (trace s2) = makes (trace s)
          @ ((fst (get_cgroup_name H env ctid i PATH_MAX s2), 0) # mk)"
        using ih(5) cr(4) obs1 p True by simp
      have e1: "e = None \<longrightarrow> r = 0
               \<and> (fst (get_cgroup_name H env ctid i PATH_MAX s2), 0) # mk
                    = map (\<lambda>j. (fst (get_cgroup_name H env ctid j PATH_MAX s2), 0))
                        (filter (\<lambda>j. mount_path s2 j \<noteq> None) (i # is))
               \<and> (\<forall>j\<in>set (i # is). mount_path s2 j \<noteq> None \<longrightarrow> settled s2 j)"
        using ih(6) mi' se by simp
      have e2: "\<forall>k. e = Some k \<longrightarrow> r \<noteq> 0
               \<and> (\<exists>pre post. i # is = pre @ k # post
                     \<and> (\<forall>j\<in>set pre. mount_path s2 j \<noteq> None \<longrightarrow> settled s2 j)
                     \<and> (((fst (get_cgroup_name H env ctid i PATH_MAX s2), 0) # mk
                             = map (\<lambda>j. (fst (get_cgroup_name H env ctid j PATH_MAX s2), 0))
                                 (filter (\<lambda>j. mount_path s2 j \<noteq> None) pre)
                           \<and> r = - 1 \<and> mount_path s2 k = None)
                         \<or> ((fst (get_cgroup_name H env ctid i PATH_MAX s2), 0) # mk
                               = map (\<lambda>j. (fst (get_cgroup_name H env ctid j PATH_MAX s2), 0))
                                   (filter (\<lambda>j. mount_path s2 j \<noteq> None) pre)
                                 @ [(fst (get_cgroup_name H env ctid k PATH_MAX s2), r)]
                             \<and> settled s2 k)))"
      proof (intro allI impI)
        fix k assume "e = Some k"
        with ih(7) obtain pre post where pp: "r \<noteq> 0" "is = pre @ k # post"
            "\<forall>j\<in>set pre. mount_path s2 j \<noteq> None \<longrightarrow> settled s2 j"
            "(mk = map (\<lambda>j. (fst (get_cgroup_name H env ctid j PATH_MAX s2), 0))
                                 (filter (\<lambda>j. mount_path s2 j \<noteq> None) pre)
                           \<and> r = - 1 \<and> mount_path s2 k = None)
                         \<or> (mk = map (\<lambda>j. (fst (get_cgroup_name H env ctid j PATH_MAX s2), 0))
                                   (filter (\<lambda>j. mount_path s2 j \<noteq> None) pre)
                                 @ [(fst (get_cgroup_name H env ctid k PATH_MAX s2), r)]
                             \<and> settled s2 k)"
          by blast
        show "r \<noteq> 0
               \<and> (\<exists>pre post. i # is = pre @ k # post
                     \<and> (\<forall>j\<in>set pre. mount_path s2 j \<noteq> None \<longrightarrow> settled s2 j)
                     \<and> (((fst (get_cgroup_name H env ctid i PATH_MAX s2), 0) # mk
                             = map (\<lambda>j. (fst (get_cgroup_name H env ctid j PATH_MAX s2), 0))
                                 (filter (\<lambda>j. mount_path s2 j \<noteq> None) pre)
                           \<and> r = - 1 \<and> mount_path s2 k = None)
                         \<or> ((fst (get_cgroup_name H env ctid i PATH_MAX s2), 0) # mk
                               = map (\<lambda>j. (fst (get_cgroup_name H env ctid j PATH_MAX s2), 0))
                                   (filter (\<lambda>j. mount_path s2 j \<noteq> None) pre)
                                 @ [(fst (get_cgroup_name H env ctid k PATH_MAX s2), r)]
                             \<and> settled s2 k)))"
          using pp mi' se
          by (intro conjI exI [of _ "i # pre"] exI [of _ post]) auto
      qed
      show ?thesis
        using l r2 ih(3,4) cr(5,6) obs1 mk' e1 e2
        by (intro exI [of _ r] exI [of _ e] exI [of _ s2]
              exI [of _ "(fst (get_cgroup_name H env ctid i PATH_MAX s2), 0) # mk"]) simp
    qed
  qed
qed

lemma rollback_runs:
  assumes T: "\<forall>p s. rm_tree env p s \<noteq> None"
  shows "\<exists>s' runs. cg_new_cgroup_err H env ctid i s = Some s'
       \<and> reach tree_call {} s s'
       \<and> map fst runs = rev (filter (\<lambda>j. mount_path s' j \<noteq> None) [0..<i])
       \<and> chain s runs s'
       \<and> list_all (\<lambda>(j, a, res, b).
            rm_tree env (fst (get_cgroup_name H env ctid j PATH_MAX s')) a = Some (res, b)
            \<and> tree_removal env (fst (get_cgroup_name H env ctid j PATH_MAX s')) a res b) runs
       \<and> makes (trace s') = makes (trace s)"
proof (induction i arbitrary: s)
  case 0
  show ?case by (simp add: reach_refl lookups_refl)
next
  case (Suc i)
  show ?case
  proof (cases "mount_path s i = None")
    case True
    from Suc.IH [of s] obtain s' runs where
      ih: "cg_new_cgroup_err H env ctid i s = Some s'"
        "reach tree_call {} s s'"
        "map fst runs = rev (filter (\<lambda>j. mount_path s' j \<noteq> None) [0..<i])"
        "chain s runs s'"
        "list_all (\<lambda>(j, a, res, b).
            rm_tree env (fst (get_cgroup_name H env ctid j PATH_MAX s')) a = Some (res, b)
            \<and> tree_removal env (fst (get_cgroup_name H env ctid j PATH_MAX s')) a res b) runs"
        "makes (trace s') = makes (trace s)"
      by blast
    have mi: "mount_path s' i = None"
      using reach_mount_path_out [OF ih(2), of i] True by simp
    have l: "cg_new_cgroup_err H env ctid (Suc i) s = Some s'"
      using True by (simp add: cg_destroy_def ih(1))
    show ?thesis
      using l ih(2-6) mi
      by (intro exI [of _ s'] exI [of _ runs]) (simp del: cg_new_cgroup_err.simps)
  next
    case False
    from cg_destroy_run [OF T False, of H ctid] obtain rs a2 s2 where
      st: "cg_destroy H env ctid i s = Some (if rs \<noteq> 0 then VZCTL_E_SYSTEM H else 0, s2)"
        "lookups s a2"
        "rm_tree env (fst (get_cgroup_name H env ctid i PATH_MAX s2)) a2 = Some (rs, s2)
            \<and> tree_removal env (fst (get_cgroup_name H env ctid i PATH_MAX s2)) a2 rs s2"
        "reach tree_call {} s s2" "settled s2 i"
        "makes (trace s2) = makes (trace s)"
      by blast
    from Suc.IH [of s2] obtain s' runs where
      ih: "cg_new_cgroup_err H env ctid i s2 = Some s'"
        "reach tree_call {} s2 s'"
        "map fst runs = rev (filter (\<lambda>j. mount_path s' j \<noteq> None) [0..<i])"
        "chain s2 runs s'"
        "list_all (\<lambda>(j, a, res, b).
            rm_tree env (fst (get_cgroup_name H env ctid j PATH_MAX s')) a = Some (res, b)
            \<and> tree_removal env (fst (get_cgroup_name H env ctid j PATH_MAX s')) a res b) runs"
        "makes (trace s') = makes (trace s2)"
      by blast
    have se: "settled s' i"
      using settled_reach [OF st(5) ih(2)] .
    then have mi: "mount_path s' i \<noteq> None" by (simp add: settled_def)
    have p: "fst (get_cgroup_name H env ctid i PATH_MAX s')
        = fst (get_cgroup_name H env ctid i PATH_MAX s2)"
      using get_cgroup_name_settled [OF st(5) ih(2)] .
    have l: "cg_new_cgroup_err H env ctid (Suc i) s = Some s'"
      by (simp add: st(1) ih(1))
    have ch: "chain s ((i, a2, rs, s2) # runs) s'"
      using st(2) ih(4) by simp
    have la: "list_all (\<lambda>(j, a, res, b).
            rm_tree env (fst (get_cgroup_name H env ctid j PATH_MAX s')) a = Some (res, b)
            \<and> tree_removal env (fst (get_cgroup_name H env ctid j PATH_MAX s')) a res b)
          ((i, a2, rs, s2) # runs)"
      using ih(5) st(3) p by simp
    show ?thesis
      using l reach_trans [OF st(4) ih(2)] ih(3,6) st(6) mi ch la
      by (intro exI [of _ s'] exI [of _ "(i, a2, rs, s2) # runs"])
         (simp del: cg_new_cgroup_err.simps chain.simps)
  qed
qed

lemma upt_split:
  assumes "[0..<n] = pre @ i # post"
  shows "pre = [0..<i] \<and> i < n"
proof -
  have l: "length pre < n"
    using arg_cong [OF assms, of length] by simp
  have "[0..<n] ! length pre = i"
    using assms by (simp add: nth_append)
  with l have i: "length pre = i" by simp
  have "take (length pre) [0..<n] = pre"
    using assms by simp
  with l i show ?thesis
    by (simp add: take_upt)
qed

lemma opens_append: "opens (xs @ ys) = opens xs @ opens ys"
  by (simp add: opens_def map_filter_append)

lemma makes_append: "makes (xs @ ys) = makes xs @ makes ys"
  by (simp add: makes_def map_filter_append)

lemma reach_traceD: "reach P M a s \<Longrightarrow> \<exists>e. trace s = trace a @ e"
  by (auto simp: reach_def)

text \<open>
  Claim C1 as stated fails: creating the directory of the memory controller fails with 49
  after the directories in the cpu and net_cls hierarchies were created.  The rollback
  calls \<open>rmdir\<close> on both, in reverse order; both calls are refused (\<open>EBUSY\<close>), which
  \<open>rm_tree\<close> does not report, and \<open>cg_new_cgroup\<close> returns 49 with both directories in
  place.
\<close>

theorem cg_new_cgroup_rollback_refused:
  "map_option fst (cg_new_cgroup H0 env_rollback_busy ''101'' s0) = Some 49
   \<and> map_option (makes \<circ> trace \<circ> snd) (cg_new_cgroup H0 env_rollback_busy ''101'' s0) =
       Some [(''/sys/fs/cgroup/cpu,cpuacct/machine.slice/101'', 0),
             (''/sys/fs/cgroup/net_cls/machine.slice/101'', 0),
             (''/sys/fs/cgroup/memory/machine.slice/101'', 49)]
   \<and> map_option (rmdirs \<circ> trace \<circ> snd) (cg_new_cgroup H0 env_rollback_busy ''101'' s0) =
       Some [(''/sys/fs/cgroup/net_cls/machine.slice/101'', - 1),
             (''/sys/fs/cgroup/cpu,cpuacct/machine.slice/101'', - 1)]"
  by (simp add: run_defs env_rollback_busy_def env_mkdir_fails_def)

text \<open>
  Claim C1 as amended.  Where every \<open>rm_tree\<close> returns, \<open>cg_new_cgroup\<close> returns, and
  its calls are a creation phase \<open>A\<close>, which opens and removes nothing, followed by the
  rollback, which creates nothing.  With result 0 there is no rollback, and \<open>make_dir\<close>
  was called, with result 0, on the directory of every controller whose mount resolves, in
  table order: the others are skipped.  With another result there is a controller \<open>i\<close>
  where the loop stopped: the directories of the resolved controllers before \<open>i\<close> were
  created in table order, then either the lookup of controller \<open>i\<close> failed with -1, or
  \<open>make_dir\<close> on its directory returned the result (the first error).  The rollback is
  one run of \<open>rm_tree\<close> on each of the created directories, in reverse order, with calls
  of the mount lookup only before, between and after the runs; each run does what
  \<open>tree_removal\<close> says, and its result does not enter the result of \<open>cg_new_cgroup\<close>.
\<close>

theorem cg_new_cgroup_rolls_back:
  assumes "\<forall>p s. rm_tree env p s \<noteq> None"
  shows "\<exists>r s' A a0 runs. cg_new_cgroup H env ctid s = Some (r, s')
       \<and> trace a0 = trace s @ A \<and> opens A = [] \<and> removals A = []
       \<and> chain a0 runs s'
       \<and> list_all (\<lambda>(j, a, res, b).
            rm_tree env (fst (get_cgroup_name H env ctid j PATH_MAX s')) a = Some (res, b)
            \<and> tree_removal env (fst (get_cgroup_name H env ctid j PATH_MAX s')) a res b) runs
       \<and> makes (trace s') = makes (trace s) @ makes A
       \<and> (r = 0 \<longrightarrow> runs = []
             \<and> makes A = map (\<lambda>j. (fst (get_cgroup_name H env ctid j PATH_MAX s'), 0))
                           (filter (\<lambda>j. mount_path s' j \<noteq> None) [0..<length cg_ctl_map]))
       \<and> (r \<noteq> 0 \<longrightarrow> (\<exists>i<length cg_ctl_map.
               map fst runs = rev (filter (\<lambda>j. mount_path s' j \<noteq> None) [0..<i])
             \<and> (makes A = map (\<lambda>j. (fst (get_cgroup_name H env ctid j PATH_MAX s'), 0))
                               (filter (\<lambda>j. mount_path s' j \<noteq> None) [0..<i])
                   \<and> r = - 1 \<and> mount_path s' i = None
                 \<or> makes A = map (\<lambda>j. (fst (get_cgroup_name H env ctid j PATH_MAX s'), 0))
                               (filter (\<lambda>j. mount_path s' j \<noteq> None) [0..<i])
                             @ [(fst (get_cgroup_name H env ctid i PATH_MAX s'), r)])))"
proof -
  from create_loop [of "[0..<length cg_ctl_map]" H env ctid s] upt_13_props
  obtain r e s1 mk where
    cl: "cg_new_cgroup_loop H env ctid [0..<length cg_ctl_map] s = Some ((r, e), s1)"
      "reach tree_call (set [0..<length cg_ctl_map]) s s1"
      "opens (trace s1) = opens (trace s)"
      "removals (trace s1) = removals (trace s)"
      "makes (trace s1) = makes (trace s) @ mk"
      "e = None \<longrightarrow> r = 0
             \<and> mk = map (\<lambda>j. (fst (get_cgroup_name H env ctid j PATH_MAX s1), 0))
                      (filter (\<lambda>j. mount_path s1 j \<noteq> None) [0..<length cg_ctl_map])
             \<and> (\<forall>j\<in>set [0..<length cg_ctl_map]. mount_path s1 j \<noteq> None \<longrightarrow> settled s1 j)"
      "\<forall>i. e = Some i \<longrightarrow> r \<noteq> 0
             \<and> (\<exists>pre post. [0..<length cg_ctl_map] = pre @ i # post
                   \<and> (\<forall>j\<in>set pre. mount_path s1 j \<noteq> None \<longrightarrow> settled s1 j)
                   \<and> ((mk = map (\<lambda>j. (fst (get_cgroup_name H env ctid j PATH_MAX s1), 0))
                               (filter (\<lambda>j. mount_path s1 j \<noteq> None) pre)
                         \<and> r = - 1 \<and> mount_path s1 i = None)
                       \<or> (mk = map (\<lambda>j. (fst (get_cgroup_name H env ctid j PATH_MAX s1), 0))
                                 (filter (\<lambda>j. mount_path s1 j \<noteq> None) pre)
                               @ [(fst (get_cgroup_name H env ctid i PATH_MAX s1), r)]
                           \<and> settled s1 i)))"
    by blast
  from reach_traceD [OF cl(2)] obtain A where A: "trace s1 = trace s @ A" by blast
  have oA: "opens A = []" using cl(3) by (simp add: A opens_append)
  have rA: "removals A = []" using cl(4) by (simp add: A removals_def map_filter_append)
  have mA: "makes A = mk" using cl(5) by (simp add: A makes_append)
  show ?thesis
  proof (cases e)
    case None
    have l: "cg_new_cgroup H env ctid s = Some (0, s1)"
      by (simp add: cg_new_cgroup_def cl(1) None)
    show ?thesis
      using l A oA rA mA cl(5,6) None
      by (intro exI [of _ 0] exI [of _ s1] exI [of _ A] exI [of _ s1] exI [of _ "[]"])
         (simp add: lookups_refl)
  next
    case (Some i)
    with cl(7) obtain pre post where pp: "r \<noteq> 0" "[0..<length cg_ctl_map] = pre @ i # post"
        "\<forall>j\<in>set pre. mount_path s1 j \<noteq> None \<longrightarrow> settled s1 j"
        "(mk = map (\<lambda>j. (fst (get_cgroup_name H env ctid j PATH_MAX s1), 0))
                               (filter (\<lambda>j. mount_path s1 j \<noteq> None) pre)
                         \<and> r = - 1 \<and> mount_path s1 i = None)
                       \<or> (mk = map (\<lambda>j. (fst (get_cgroup_name H env ctid j PATH_MAX s1), 0))
                                 (filter (\<lambda>j. mount_path s1 j \<noteq> None) pre)
                               @ [(fst (get_cgroup_name H env ctid i PATH_MAX s1), r)]
                           \<and> settled s1 i)"
      by blast
    from upt_split [OF pp(2)] have pre: "pre = [0..<i]" and i: "i < length cg_ctl_map"
      by simp_all
    from rollback_runs [OF assms, of H ctid i s1] obtain s' runs where
      rb: "cg_new_cgroup_err H env ctid i s1 = Some s'"
        "reach tree_call {} s1 s'"
        "map fst runs = rev (filter (\<lambda>j. mount_path s' j \<noteq> None) [0..<i])"
        "chain s1 runs s'"
        "list_all (\<lambda>(j, a, res, b).
            rm_tree env (fst (get_cgroup_name H env ctid j PATH_MAX s')) a = Some (res, b)
            \<and> tree_removal env (fst (get_cgroup_name H env ctid j PATH_MAX s')) a res b) runs"
        "makes (trace s') = makes (trace s1)"
      by blast
    have mp: "\<And>j. mount_path s' j = mount_path s1 j"
      using reach_mount_path_out [OF rb(2)] by simp
    have pth: "\<And>j. settled s1 j \<Longrightarrow> fst (get_cgroup_name H env ctid j PATH_MAX s')
        = fst (get_cgroup_name H env ctid j PATH_MAX s1)"
      using get_cgroup_name_settled [OF _ rb(2)] .
    have mapeq: "map (\<lambda>j. (fst (get_cgroup_name H env ctid j PATH_MAX s1), 0 :: int))
                   (filter (\<lambda>j. mount_path s1 j \<noteq> None) pre)
               = map (\<lambda>j. (fst (get_cgroup_name H env ctid j PATH_MAX s'), 0))
                   (filter (\<lambda>j. mount_path s' j \<noteq> None) [0..<i])"
      unfolding mp pre [symmetric]
      by (rule map_cong [OF refl]) (use pp(3) pth in auto)
    have l: "cg_new_cgroup H env ctid s = Some (r, s')"
      by (simp add: cg_new_cgroup_def cl(1) Some rb(1))
    have d: "makes A = map (\<lambda>j. (fst (get_cgroup_name H env ctid j PATH_MAX s'), 0))
                               (filter (\<lambda>j. mount_path s' j \<noteq> None) [0..<i])
                   \<and> r = - 1 \<and> mount_path s' i = None
                 \<or> makes A = map (\<lambda>j. (fst (get_cgroup_name H env ctid j PATH_MAX s'), 0))
                               (filter (\<lambda>j. mount_path s' j \<noteq> None) [0..<i])
                             @ [(fst (get_cgroup_name H env ctid i PATH_MAX s'), r)]"
      using pp(4) mapeq mA mp pth [of i] by auto
    have ex: "\<exists>i<length cg_ctl_map.
               map fst runs = rev (filter (\<lambda>j. mount_path s' j \<noteq> None) [0..<i])
             \<and> (makes A = map (\<lambda>j. (fst (get_cgroup_name H env ctid j PATH_MAX s'), 0))
                               (filter (\<lambda>j. mount_path s' j \<noteq> None) [0..<i])
                   \<and> r = - 1 \<and> mount_path s' i = None
                 \<or> makes A = map (\<lambda>j. (fst (get_cgroup_name H env ctid j PATH_MAX s'), 0))
                               (filter (\<lambda>j. mount_path s' j \<noteq> None) [0..<i])
                             @ [(fst (get_cgroup_name H env ctid i PATH_MAX s'), r)])"
      using i rb(3) d by (intro exI [of _ i]) simp
    have mk': "makes (trace s') = makes (trace s) @ makes A"
      using rb(6) cl(5) mA by simp
    show ?thesis
      using l A oA rA rb(4,5) mk' pp(1) ex
      by (intro exI [of _ r] exI [of _ s'] exI [of _ A] exI [of _ s1] exI [of _ runs]) simp
  qed
qed

lemma cg_new_cgroup_removed:
  "(case cg_new_cgroup H0 env_mkdir_fails ''101'' s0 of
      None \<Rightarrow> False
    | Some (r, s') \<Rightarrow> r = 49
        \<and> makes (trace s') =
            [(''/sys/fs/cgroup/cpu,cpuacct/machine.slice/101'', 0),
             (''/sys/fs/cgroup/net_cls/machine.slice/101'', 0),
             (''/sys/fs/cgroup/memory/machine.slice/101'', 49)]
        \<and> rmdirs (trace s') =
            [(''/sys/fs/cgroup/net_cls/machine.slice/101'', 0),
             (''/sys/fs/cgroup/cpu,cpuacct/machine.slice/101'', 0)])"
  by (simp add: run_defs env_mkdir_fails_def)

theorem cg_new_cgroup_rolls_back_witness:
  "\<exists>s'. cg_new_cgroup H0 env_mkdir_fails ''101'' s0 = Some (49, s')
      \<and> makes (trace s') = [(''/sys/fs/cgroup/cpu,cpuacct/machine.slice/101'', 0),
                            (''/sys/fs/cgroup/net_cls/machine.slice/101'', 0),
                            (''/sys/fs/cgroup/memory/machine.slice/101'', 49)]
      \<and> rmdirs (trace s') = [(''/sys/fs/cgroup/net_cls/machine.slice/101'', 0),
                             (''/sys/fs/cgroup/cpu,cpuacct/machine.slice/101'', 0)]"
proof -
  have T: "\<forall>p s. rm_tree env_mkdir_fails p s \<noteq> None"
    using rm_tree_env_mkdir_fails by blast
  from cg_new_cgroup_rolls_back [OF T, of H0 "''101''" s0]
  obtain r s' where "cg_new_cgroup H0 env_mkdir_fails ''101'' s0 = Some (r, s')"
    by blast
  with cg_new_cgroup_removed show ?thesis
    by simp
qed

subsection \<open>Parameter files\<close>

lemma naps_append: "naps (xs @ ys) = naps xs @ naps ys"
  by (simp add: naps_def map_filter_append)

lemma writes_append: "writes (xs @ ys) = writes xs @ writes ys"
  by (simp add: writes_def map_filter_append)

lemma read_call_lookup: "lookup_call c \<Longrightarrow> read_call c"
  by (cases c) simp_all

lemma naps_read: "reach read_call M a s \<Longrightarrow> naps (trace s) = naps (trace a)"
  unfolding naps_def by (erule reach_map_filter) (auto split: call.splits)

lemma writes_read: "reach read_call M a s \<Longrightarrow> writes (trace s) = writes (trace a)"
  unfolding writes_def by (erule reach_map_filter) (auto split: call.splits)

lemma cg_get_path_reach:
  assumes "i < length cg_ctl_map"
  shows "reach lookup_call {i} s (snd (cg_get_path H env ctid (subsys (cg_ctl_map ! i)) name sz s))"
proof -
  obtain ret ctl s1 where c: "cg_get_ctl env (subsys (cg_ctl_map ! i)) s = ((ret, ctl), s1)"
    by (metis surj_pair)
  have r1: "reach lookup_call {i} s s1"
    using cg_get_ctl_reach [OF assms reach_refl, of "{i}" s env] c by simp
  from get_cgroup_name_reach [OF r1] r1 show ?thesis
    by (auto simp: cg_get_path_def c split_beta split: option.splits)
qed

lemma cg_get_path_result:
  assumes "i < length cg_ctl_map"
  shows "\<exists>ret p. fst (cg_get_path H env ctid (subsys (cg_ctl_map ! i)) name sz s) = Ret (ret, p)"
proof -
  obtain ret ctl s1 where c: "cg_get_ctl env (subsys (cg_ctl_map ! i)) s = ((ret, ctl), s1)"
    by (metis surj_pair)
  from cg_get_ctl_result(1) [OF assms c] show ?thesis
    by (auto simp: cg_get_path_def c split_beta split: option.splits)
qed

lemma cg_read_reach: "reach read_call M a s \<Longrightarrow> reach read_call M a (snd (cg_read env path sz s))"
  by (auto simp: cg_read_def split_beta Let_def intro!: reach_steps)

lemma cg_get_param_reach:
  assumes "i < length cg_ctl_map"
  shows "reach read_call {i} s (snd (cg_get_param H env ctid (subsys (cg_ctl_map ! i)) name sz s))"
proof -
  have r: "reach read_call {i} s (snd (cg_get_path H env ctid (subsys (cg_ctl_map ! i)) name PATH_MAX s))"
    using reach_weaken [OF cg_get_path_reach [OF assms], of read_call "{i}"]
    by (simp add: read_call_lookup)
  from cg_read_reach [OF r] r show ?thesis
    by (auto simp: cg_get_param_def split: prod.splits outcome.splits)
qed

lemma write_data_ok:
  assumes "write_data env path data s = (0, s1)"
  shows "writes (trace s1) = writes (trace s) @ [data] \<and> naps (trace s1) = naps (trace s)"
  using assms
  by (auto simp: write_data_def do_write_data_def sys_def Let_def vzctl_err_def logger_def
        writes_def naps_def map_filter_append List.map_filter_def split: if_splits prod.splits)

lemma write_data_writes:
  "writes (trace (snd (write_data env path data s))) = writes (trace s)
   \<or> writes (trace (snd (write_data env path data s))) = writes (trace s) @ [data]"
  by (auto simp: write_data_def do_write_data_def sys_def Let_def vzctl_err_def logger_def
        writes_def map_filter_append List.map_filter_def split: if_splits prod.splits)

lemma cg_set_param_ok:
  assumes i: "i < length cg_ctl_map"
    and w: "cg_set_param H env ctid (subsys (cg_ctl_map ! i)) name data s = (Ret 0, s1)"
  shows "writes (trace s1) = writes (trace s) @ [data]" "naps (trace s1) = naps (trace s)"
proof -
  obtain o1 sp where p: "cg_get_path H env ctid (subsys (cg_ctl_map ! i)) name PATH_MAX s = (o1, sp)"
    by (metis surj_pair)
  have r: "reach read_call {i} s sp"
    using reach_weaken [OF cg_get_path_reach [OF i, of s H env ctid name PATH_MAX], of read_call "{i}"] p
    by (simp add: read_call_lookup)
  from w p obtain path where "write_data env path data sp = (0, s1)"
    by (auto simp: cg_set_param_def split: outcome.splits if_splits prod.splits)
  from write_data_ok [OF this] naps_read [OF r] writes_read [OF r]
  show "writes (trace s1) = writes (trace s) @ [data]" "naps (trace s1) = naps (trace s)"
    by simp_all
qed

lemma CG_FREEZER_nth: "CG_FREEZER = subsys (cg_ctl_map ! 6) \<and> 6 < length cg_ctl_map"
  by (simp add: cg_ctl_map_def)

lemma freezer_read_frame:
  "naps (trace (snd (freezer_read H env ctid s))) = naps (trace s)"
  "writes (trace (snd (freezer_read H env ctid s))) = writes (trace s)"
proof -
  have "reach read_call {6} s (snd (freezer_read H env ctid s))"
    using cg_get_param_reach [of 6 s H env "Some ctid" "''freezer.state''" "STR_SIZE H"]
      CG_FREEZER_nth
    by (simp add: freezer_read_def)
  then show "naps (trace (snd (freezer_read H env ctid s))) = naps (trace s)"
    "writes (trace (snd (freezer_read H env ctid s))) = writes (trace s)"
    by (simp_all add: naps_read writes_read)
qed

lemma next_poll_frame:
  "naps (trace (next_poll H env ctid s)) = naps (trace s) @ [1]"
  "writes (trace (next_poll H env ctid s)) = writes (trace s)"
  using freezer_read_frame [of H env ctid s]
  by (simp_all add: next_poll_def sys_def Let_def naps_append writes_append)
     (simp_all add: naps_def writes_def List.map_filter_def)

lemma polls_frame:
  "naps (trace ((next_poll H env ctid ^^ n) s)) = naps (trace s) @ replicate n 1
   \<and> writes (trace ((next_poll H env ctid ^^ n) s)) = writes (trace s)"
  by (induction n) (simp_all add: next_poll_frame replicate_append_same)

lemma strncmp_eq_prefix: "strncmp_eq buf st (length st) = prefix st buf"
proof
  assume "strncmp_eq buf st (length st)"
  then have "take (length st) buf = st" by (simp add: strncmp_eq_def)
  then show "prefix st buf" by (metis take_is_prefix)
next
  assume "prefix st buf"
  then show "strncmp_eq buf st (length st)" by (auto simp: strncmp_eq_def prefix_def)
qed

subsection \<open>cg_set_freezer_state\<close>

lemma freezer_poll_pending:
  "pending H env ctid st s \<Longrightarrow>
     freezer_poll H env ctid st (length st) s = freezer_poll H env ctid st (length st) (next_poll H env ctid s)"
  by (subst freezer_poll.simps)
     (auto simp: pending_def next_poll_def freezer_read_def strncmp_eq_prefix
        split: prod.splits outcome.splits)

lemma freezer_poll_done:
  "\<not> pending H env ctid st s \<Longrightarrow>
     freezer_poll H env ctid st (length st) s = Some (poll_result H env ctid s)"
  by (subst freezer_poll.simps)
     (auto simp: pending_def poll_result_def freezer_read_def strncmp_eq_prefix
        split: prod.splits outcome.splits)

lemma freezer_poll_steps:
  "\<forall>k<n. pending H env ctid st ((next_poll H env ctid ^^ k) s) \<Longrightarrow>
   \<not> pending H env ctid st ((next_poll H env ctid ^^ n) s) \<Longrightarrow>
   freezer_poll H env ctid st (length st) s
     = Some (poll_result H env ctid ((next_poll H env ctid ^^ n) s))"
proof (induction n arbitrary: s)
  case 0
  then show ?case by (simp add: freezer_poll_done)
next
  case (Suc n)
  from Suc.prems(1) have p0: "pending H env ctid st s" by fastforce
  have a: "\<forall>k<n. pending H env ctid st ((next_poll H env ctid ^^ k) (next_poll H env ctid s))"
  proof (intro allI impI)
    fix k assume "k < n"
    with Suc.prems(1) have "pending H env ctid st ((next_poll H env ctid ^^ Suc k) s)" by blast
    then show "pending H env ctid st ((next_poll H env ctid ^^ k) (next_poll H env ctid s))"
      by (simp add: funpow_swap1)
  qed
  have b: "\<not> pending H env ctid st ((next_poll H env ctid ^^ n) (next_poll H env ctid s))"
    using Suc.prems(2) by (simp add: funpow_swap1)
  from Suc.IH [OF a b] freezer_poll_pending [OF p0] show ?case
    by (simp add: funpow_swap1)
qed

lemma freezer_poll_Some:
  assumes "freezer_poll H env ctid st len s = Some y"
  shows "len = length st \<longrightarrow> (\<exists>n. (\<forall>k<n. pending H env ctid st ((next_poll H env ctid ^^ k) s))
            \<and> \<not> pending H env ctid st ((next_poll H env ctid ^^ n) s)
            \<and> y = poll_result H env ctid ((next_poll H env ctid ^^ n) s))"
proof (rule freezer_poll.raw_induct [where P = "\<lambda>H env ctid st len s y.
          len = length st \<longrightarrow> (\<exists>n. (\<forall>k<n. pending H env ctid st ((next_poll H env ctid ^^ k) s))
            \<and> \<not> pending H env ctid st ((next_poll H env ctid ^^ n) s)
            \<and> y = poll_result H env ctid ((next_poll H env ctid ^^ n) s))", OF _ assms], goal_cases)
  case (1 f H env ctid st len s y)
  show ?case
  proof (intro impI)
    assume len: "len = length st"
    show "\<exists>n. (\<forall>k<n. pending H env ctid st ((next_poll H env ctid ^^ k) s))
            \<and> \<not> pending H env ctid st ((next_poll H env ctid ^^ n) s)
            \<and> y = poll_result H env ctid ((next_poll H env ctid ^^ n) s)"
    proof (cases "pending H env ctid st s")
      case False
      have "y = poll_result H env ctid s"
        using 1(2) False len
        by (auto simp: pending_def poll_result_def freezer_read_def strncmp_eq_prefix
              split: prod.splits outcome.splits if_splits)
      with False show ?thesis
        by (intro exI [of _ 0]) simp
    next
      case True
      have "f H env ctid st len (next_poll H env ctid s) = Some y"
        using 1(2) True len
        by (auto simp: pending_def next_poll_def freezer_read_def strncmp_eq_prefix
              split: prod.splits outcome.splits if_splits)
      from 1(1) [OF this] len obtain n where
        n: "\<forall>k<n. pending H env ctid st ((next_poll H env ctid ^^ k) (next_poll H env ctid s))"
          "\<not> pending H env ctid st ((next_poll H env ctid ^^ n) (next_poll H env ctid s))"
          "y = poll_result H env ctid ((next_poll H env ctid ^^ n) (next_poll H env ctid s))"
        by blast
      have "\<forall>k<Suc n. pending H env ctid st ((next_poll H env ctid ^^ k) s)"
      proof (intro allI impI)
        fix k assume k: "k < Suc n"
        show "pending H env ctid st ((next_poll H env ctid ^^ k) s)"
        proof (cases k)
          case 0
          with True show ?thesis by simp
        next
          case (Suc j)
          with k n(1) show ?thesis by (simp add: funpow_swap1)
        qed
      qed
      with n(2,3) show ?thesis
        by (intro exI [of _ "Suc n"]) (simp add: funpow_swap1)
    qed
  qed
qed

lemmas param_defs = cg_get_param_def cg_set_param_def cg_get_path_def cg_read_def write_data_def
      do_write_data_def in_bounds_def cstr_def

lemma env_freezer_write:
  "fst (cg_set_param H0 (env_freezer d) (Some ''101'') CG_FREEZER ''freezer.state'' ''FROZEN'' s0) = Ret 0"
  by (simp add: param_defs ctl_defs sys_def env_freezer_def freezer_mounts_def ok_def failing_def
        vzctl_err_def logger_def s0_def H0_def Let_def upt_rec PATH_MAX_def ENOENT_def)

lemma env_freezer_never:
  "pending H0 (env_freezer None) ''101'' ''FROZEN'' s"
  by (auto simp: pending_def freezer_read_def param_defs ctl_defs sys_def env_freezer_def
        freezer_mounts_def ok_def failing_def
        vzctl_err_def logger_def H0_def Let_def upt_rec PATH_MAX_def ENOENT_def
        split: option.splits)

lemma env_freezer_at_once:
  "converged H0 (env_freezer (Some 0)) ''101'' ''FROZEN''
     (snd (cg_set_param H0 (env_freezer (Some 0)) (Some ''101'') CG_FREEZER ''freezer.state''
             ''FROZEN'' s0))"
  by (simp add: converged_def freezer_read_def param_defs ctl_defs sys_def env_freezer_def
        freezer_mounts_def ok_def failing_def naps_def List.map_filter_def
        vzctl_err_def logger_def s0_def H0_def Let_def upt_rec PATH_MAX_def ENOENT_def)

lemma env_freezer_later:
  "pending H0 (env_freezer (Some 2)) ''101'' ''FROZEN''
     (snd (cg_set_param H0 (env_freezer (Some 2)) (Some ''101'') CG_FREEZER ''freezer.state''
             ''FROZEN'' s0))
   \<and> pending H0 (env_freezer (Some 2)) ''101'' ''FROZEN''
     (next_poll H0 (env_freezer (Some 2)) ''101''
       (snd (cg_set_param H0 (env_freezer (Some 2)) (Some ''101'') CG_FREEZER ''freezer.state''
             ''FROZEN'' s0)))
   \<and> converged H0 (env_freezer (Some 2)) ''101'' ''FROZEN''
     (next_poll H0 (env_freezer (Some 2)) ''101''
       (next_poll H0 (env_freezer (Some 2)) ''101''
         (snd (cg_set_param H0 (env_freezer (Some 2)) (Some ''101'') CG_FREEZER ''freezer.state''
             ''FROZEN'' s0))))"
  by (simp add: converged_def pending_def next_poll_def freezer_read_def param_defs ctl_defs
        sys_def env_freezer_def
        freezer_mounts_def ok_def failing_def naps_def List.map_filter_def
        vzctl_err_def logger_def s0_def H0_def Let_def upt_rec PATH_MAX_def ENOENT_def)

text \<open>
  Claim C8.  When the write of the target state succeeds (it is the one write made):
  if the first \<open>n\<close> polls are pending and poll \<open>n\<close> has converged, the call returns 0
  after exactly \<open>n\<close> sleeps of one second each, none when \<open>n = 0\<close>, and without another
  write; if every poll is pending the call never returns; and whenever the call returns
  0 some poll has converged.
\<close>

theorem cg_set_freezer_state_polls:
  assumes "cg_set_param H env (Some ctid) CG_FREEZER ''freezer.state'' state' s = (Ret 0, s1)"
  shows "writes (trace s1) = writes (trace s) @ [state']
     \<and> (\<forall>n. (\<forall>k<n. pending H env ctid state' ((next_poll H env ctid ^^ k) s1))
               \<and> converged H env ctid state' ((next_poll H env ctid ^^ n) s1)
          \<longrightarrow> (\<exists>s'. cg_set_freezer_state H env ctid state' s = Some (Ret 0, s')
                 \<and> naps (trace s') = naps (trace s) @ replicate n 1
                 \<and> writes (trace s') = writes (trace s) @ [state']))
     \<and> ((\<forall>k. pending H env ctid state' ((next_poll H env ctid ^^ k) s1))
          \<longrightarrow> cg_set_freezer_state H env ctid state' s = None)
     \<and> (\<forall>s'. cg_set_freezer_state H env ctid state' s = Some (Ret 0, s')
          \<longrightarrow> (\<exists>n. (\<forall>k<n. pending H env ctid state' ((next_poll H env ctid ^^ k) s1))
                 \<and> converged H env ctid state' ((next_poll H env ctid ^^ n) s1)))"
proof (intro conjI allI impI)
  have a: "cg_set_param H env (Some ctid) (subsys (cg_ctl_map ! 6)) ''freezer.state'' state' s = (Ret 0, s1)"
    using assms CG_FREEZER_nth by simp
  note w = cg_set_param_ok [OF _ a]
  have f: "cg_set_freezer_state H env ctid state' s
      = freezer_poll H env ctid state' (length state') s1"
    by (simp add: cg_set_freezer_state_def assms)
  show "writes (trace s1) = writes (trace s) @ [state']"
    using w(1) CG_FREEZER_nth by simp
  {
    fix n
    assume h: "(\<forall>k<n. pending H env ctid state' ((next_poll H env ctid ^^ k) s1))
               \<and> converged H env ctid state' ((next_poll H env ctid ^^ n) s1)"
    define sn where "sn = (next_poll H env ctid ^^ n) s1"
    from h have c: "converged H env ctid state' sn" by (simp add: sn_def)
    then have np: "\<not> pending H env ctid state' sn"
      by (auto simp: converged_def pending_def split: outcome.splits)
    from c have pr: "poll_result H env ctid sn = (Ret 0, snd (freezer_read H env ctid sn))"
      by (auto simp: converged_def poll_result_def split: outcome.splits prod.splits)
    from freezer_poll_steps [where n = n and H = H and env = env and ctid = ctid and st = state' and s = s1] h np
    have "freezer_poll H env ctid state' (length state') s1 = Some (poll_result H env ctid sn)"
      by (simp add: sn_def)
    with f pr have r: "cg_set_freezer_state H env ctid state' s
        = Some (Ret 0, snd (freezer_read H env ctid sn))"
      by simp
    have fr: "naps (trace (snd (freezer_read H env ctid sn))) = naps (trace s) @ replicate n 1"
      "writes (trace (snd (freezer_read H env ctid sn))) = writes (trace s) @ [state']"
      using polls_frame [where H = H and env = env and ctid = ctid and n = n and s = s1] w CG_FREEZER_nth
      by (simp_all add: freezer_read_frame sn_def)
    from r fr show "\<exists>s'. cg_set_freezer_state H env ctid state' s = Some (Ret 0, s')
                 \<and> naps (trace s') = naps (trace s) @ replicate n 1
                 \<and> writes (trace s') = writes (trace s) @ [state']"
      by blast
  }
  {
    assume h: "\<forall>k. pending H env ctid state' ((next_poll H env ctid ^^ k) s1)"
    show "cg_set_freezer_state H env ctid state' s = None"
    proof (cases "freezer_poll H env ctid state' (length state') s1")
      case None
      with f show ?thesis by simp
    next
      case (Some y)
      from freezer_poll_Some [OF Some] h show ?thesis by blast
    qed
  }
  {
    fix s'
    assume "cg_set_freezer_state H env ctid state' s = Some (Ret 0, s')"
    with f have "freezer_poll H env ctid state' (length state') s1 = Some (Ret 0, s')" by simp
    from freezer_poll_Some [OF this] obtain n where
      n: "\<forall>k<n. pending H env ctid state' ((next_poll H env ctid ^^ k) s1)"
        "\<not> pending H env ctid state' ((next_poll H env ctid ^^ n) s1)"
        "(Ret 0, s') = poll_result H env ctid ((next_poll H env ctid ^^ n) s1)"
      by blast
    from n(2,3) have "converged H env ctid state' ((next_poll H env ctid ^^ n) s1)"
      by (auto simp: converged_def pending_def poll_result_def split: outcome.splits prod.splits)
    with n(1) show "\<exists>n. (\<forall>k<n. pending H env ctid state' ((next_poll H env ctid ^^ k) s1))
                 \<and> converged H env ctid state' ((next_poll H env ctid ^^ n) s1)"
      by blast
  }
qed

theorem cg_set_freezer_state_polls_witness:
  "(\<exists>s'. cg_set_freezer_state H0 (env_freezer (Some 0)) ''101'' ''FROZEN'' s0 = Some (Ret 0, s')
        \<and> naps (trace s') = [] \<and> writes (trace s') = [''FROZEN''])
   \<and> (\<exists>s'. cg_set_freezer_state H0 (env_freezer (Some 2)) ''101'' ''FROZEN'' s0 = Some (Ret 0, s')
        \<and> naps (trace s') = [1, 1] \<and> writes (trace s') = [''FROZEN''])
   \<and> cg_set_freezer_state H0 (env_freezer None) ''101'' ''FROZEN'' s0 = None"
proof -
  have w: "\<And>d. cg_set_param H0 (env_freezer d) (Some ''101'') CG_FREEZER ''freezer.state'' ''FROZEN'' s0
      = (Ret 0, snd (cg_set_param H0 (env_freezer d) (Some ''101'') CG_FREEZER ''freezer.state''
                       ''FROZEN'' s0))"
    using env_freezer_write by (simp add: prod_eq_iff)
  have n0: "naps (trace s0) = []" "writes (trace s0) = []"
    by (simp_all add: s0_def naps_def writes_def List.map_filter_def)
  note t0 = cg_set_freezer_state_polls [OF w [of "Some 0"], THEN conjunct2, THEN conjunct1,
      THEN spec, of 0]
  note t2 = cg_set_freezer_state_polls [OF w [of "Some 2"], THEN conjunct2, THEN conjunct1,
      THEN spec, of 2]
  note t3 = cg_set_freezer_state_polls [OF w [of None], THEN conjunct2, THEN conjunct2,
      THEN conjunct1]
  from t0 env_freezer_at_once n0
  have a: "\<exists>s'. cg_set_freezer_state H0 (env_freezer (Some 0)) ''101'' ''FROZEN'' s0 = Some (Ret 0, s')
        \<and> naps (trace s') = [] \<and> writes (trace s') = [''FROZEN'']"
    by simp
  have "\<forall>k<2. pending H0 (env_freezer (Some 2)) ''101'' ''FROZEN''
          ((next_poll H0 (env_freezer (Some 2)) ''101'' ^^ k)
            (snd (cg_set_param H0 (env_freezer (Some 2)) (Some ''101'') CG_FREEZER ''freezer.state''
                    ''FROZEN'' s0)))"
    using env_freezer_later by (simp add: less_2_cases_iff)
  moreover have "converged H0 (env_freezer (Some 2)) ''101'' ''FROZEN''
          ((next_poll H0 (env_freezer (Some 2)) ''101'' ^^ 2)
            (snd (cg_set_param H0 (env_freezer (Some 2)) (Some ''101'') CG_FREEZER ''freezer.state''
                    ''FROZEN'' s0)))"
    using env_freezer_later by (simp add: numeral_2_eq_2)
  ultimately
  have b: "\<exists>s'. cg_set_freezer_state H0 (env_freezer (Some 2)) ''101'' ''FROZEN'' s0 = Some (Ret 0, s')
        \<and> naps (trace s') = [1, 1] \<and> writes (trace s') = [''FROZEN'']"
    using t2 n0 by (simp add: numeral_2_eq_2)
  from t3 env_freezer_never
  have c: "cg_set_freezer_state H0 (env_freezer None) ''101'' ''FROZEN'' s0 = None"
    by simp
  from a b c show ?thesis by blast
qed

subsection \<open>cg_env_set_mask\<close>

lemma CG_CPUSET_nth: "CG_CPUSET = subsys (cg_ctl_map ! 1) \<and> 1 < length cg_ctl_map"
  by (simp add: cg_ctl_map_def)

lemma cg_set_param_cases:
  assumes i: "i < length cg_ctl_map"
  shows "\<exists>w s'. cg_set_param H env ctid (subsys (cg_ctl_map ! i)) name data s = (Ret w, s')
      \<and> (writes (trace s') = writes (trace s) \<or> writes (trace s') = writes (trace s) @ [data])
      \<and> (w = 0 \<longrightarrow> writes (trace s') = writes (trace s) @ [data])"
proof -
  obtain o1 sp where p: "cg_get_path H env ctid (subsys (cg_ctl_map ! i)) name PATH_MAX s = (o1, sp)"
    by (metis surj_pair)
  have r: "reach read_call {i} s sp"
    using reach_weaken [OF cg_get_path_reach [OF i, of s H env ctid name PATH_MAX], of read_call "{i}"] p
    by (simp add: read_call_lookup)
  from cg_get_path_result [OF i, of H env ctid name PATH_MAX s] p
  obtain ret path where o1: "o1 = Ret (ret, path)" by auto
  obtain w s' where c: "cg_set_param H env ctid (subsys (cg_ctl_map ! i)) name data s = (w, s')"
    by (metis surj_pair)
  show ?thesis
  proof (cases "ret = 0")
    case False
    with p o1 r show ?thesis
      by (simp add: cg_set_param_def writes_read)
  next
    case True
    obtain x sw where wd: "write_data env path data sp = (x, sw)"
      by (metis surj_pair)
    have e: "cg_set_param H env ctid (subsys (cg_ctl_map ! i)) name data s = (Ret x, sw)"
      using p o1 True wd by (simp add: cg_set_param_def)
    from write_data_writes [of env path data sp] wd writes_read [OF r]
    have a: "writes (trace sw) = writes (trace s) \<or> writes (trace sw) = writes (trace s) @ [data]"
      by simp
    have b: "x = 0 \<longrightarrow> writes (trace sw) = writes (trace s) @ [data]"
      using write_data_ok [of env path data sp sw] wd writes_read [OF r] by simp
    from e a b show ?thesis by simp
  qed
qed

lemma writes_sys_other:
  "(\<And>fd x. c \<noteq> Write fd x) \<Longrightarrow> writes (trace (snd (sys env c s))) = writes (trace s)"
  by (cases c) (simp_all add: sys_def Let_def writes_append, simp_all add: writes_def List.map_filter_def)

lemma env_cpuset_read:
  "fst (cg_get_param H0 env_cpuset (Some []) CG_CPUSET (take 63 (''cpuset.'' @ ''cpus'')) 4096 s0)
     = Ret (0, ''1-3'')"
  by (simp add: param_defs ctl_defs sys_def env_cpuset_def cpuset_mounts_def ok_def failing_def
        vzctl_err_def logger_def s0_def H0_def Let_def upt_rec PATH_MAX_def ENOENT_def)

lemma env_cpuset_set:
  "fst (cg_env_set_cpumask H0 env_cpuset ''101'' [7] 8 s0) = Ret 0"
  by (simp add: cg_env_set_cpumask_def cg_env_set_mask_def bitmap_and_def
        param_defs ctl_defs sys_def env_cpuset_def cpuset_mounts_def ok_def failing_def
        vzctl_err_def logger_def s0_def H0_def Let_def upt_rec PATH_MAX_def ENOENT_def)

text \<open>
  Claim C4.  When the read of the active mask \<open>cpuset.<name>\<close> succeeds with the text
  \<open>buf\<close>, the allocation succeeds and \<open>buf\<close> parses to the bitmap \<open>active\<close>
  (\<open>VZCTL_E_CPUMASK\<close> being an error code, not 0): if the bitwise AND of the requested
  mask and \<open>active\<close> has a bit set, the only text \<open>cg_env_set_mask\<close> may write is that of
  the AND, and it has written it when it returns 0; if the AND is empty it returns
  \<open>VZCTL_E_CPUMASK\<close>, writes nothing, and its message ends with the text read from the
  kernel, the supported range.
\<close>

theorem cg_env_set_mask_intersection:
  assumes rd: "cg_get_param H env (Some []) CG_CPUSET (take 63 (''cpuset.'' @ name)) 4096 s
                 = (Ret (0, buf), s1)"
    and mem: "0 \<le> r_ret (env (trace s1) (Malloc sz))"
    and parse: "vzctl2_bitmap_parse H buf sz = Some active"
    and nz: "VZCTL_E_CPUMASK H \<noteq> 0"
  shows "(list_ex (\<lambda>w. w \<noteq> 0) (map2 (AND) cpumask active) \<longrightarrow>
           (\<exists>r s'. cg_env_set_mask H env ctid name cpumask sz s = (Ret r, s')
              \<and> (r = 0 \<or> r = VZCTL_E_CPUMASK H)
              \<and> (writes (trace s') = writes (trace s)
                   \<or> writes (trace s') = writes (trace s)
                        @ [bitmap_snprintf H 4096 (map2 (AND) cpumask active)])
              \<and> (r = 0 \<longrightarrow> writes (trace s') = writes (trace s)
                        @ [bitmap_snprintf H 4096 (map2 (AND) cpumask active)])))
       \<and> (\<not> list_ex (\<lambda>w. w \<noteq> 0) (map2 (AND) cpumask active) \<longrightarrow>
           (\<exists>s'. cg_env_set_mask H env ctid name cpumask sz s = (Ret (VZCTL_E_CPUMASK H), s')
              \<and> writes (trace s') = writes (trace s)
              \<and> logged s' = logged s1
                   @ [(- 1, 0, ''Unable to set '' @ name @ '' value ''
                                @ bitmap_snprintf H 4096 cpumask
                                @ '', supported range: '' @ buf)]))"
proof (intro conjI impI)
  define s2 where "s2 = snd (sys env (Malloc sz) s1)"
  have m: "sys env (Malloc sz) s1 = (env (trace s1) (Malloc sz), s2)"
    by (simp add: s2_def sys_def Let_def)
  have w1: "writes (trace s1) = writes (trace s)"
    using cg_get_param_reach [of 1 s H env "Some []" "take 63 (''cpuset.'' @ name)" 4096] rd
      CG_CPUSET_nth writes_read [of "{1}" s s1]
    by simp
  have w2: "writes (trace s2) = writes (trace s)"
    using w1 by (simp add: s2_def writes_sys_other)
  have l2: "logged s2 = logged s1"
    by (simp add: s2_def sys_def Let_def)
  {
    assume ne: "list_ex (\<lambda>w. w \<noteq> 0) (map2 (AND) cpumask active)"
    from cg_set_param_cases [of 1 H env "Some ctid" "take 63 (''cpuset.'' @ name)"
        "bitmap_snprintf H 4096 (map2 (AND) cpumask active)" s2] CG_CPUSET_nth
    obtain w s3 where
      sp: "cg_set_param H env (Some ctid) CG_CPUSET (take 63 (''cpuset.'' @ name))
              (bitmap_snprintf H 4096 (map2 (AND) cpumask active)) s2 = (Ret w, s3)"
        "writes (trace s3) = writes (trace s2)
           \<or> writes (trace s3) = writes (trace s2) @ [bitmap_snprintf H 4096 (map2 (AND) cpumask active)]"
        "w = 0 \<longrightarrow> writes (trace s3) = writes (trace s2)
                        @ [bitmap_snprintf H 4096 (map2 (AND) cpumask active)]"
      by auto
    show "\<exists>r s'. cg_env_set_mask H env ctid name cpumask sz s = (Ret r, s')
              \<and> (r = 0 \<or> r = VZCTL_E_CPUMASK H)
              \<and> (writes (trace s') = writes (trace s)
                   \<or> writes (trace s') = writes (trace s)
                        @ [bitmap_snprintf H 4096 (map2 (AND) cpumask active)])
              \<and> (r = 0 \<longrightarrow> writes (trace s') = writes (trace s)
                        @ [bitmap_snprintf H 4096 (map2 (AND) cpumask active)])"
    proof (cases "w = 0")
      case True
      have "cg_env_set_mask H env ctid name cpumask sz s = (Ret 0, s3)"
        using rd mem parse ne sp(1) True
        by (simp add: cg_env_set_mask_def m bitmap_and_def Let_def)
      with sp(3) True w2 show ?thesis by simp
    next
      case False
      have "cg_env_set_mask H env ctid name cpumask sz s
          = (Ret (VZCTL_E_CPUMASK H),
             snd (vzctl_err (VZCTL_E_CPUMASK H) (errno s3)
                    (''Unable to set '' @ take 63 (''cpuset.'' @ name)) s3))"
        using rd mem parse ne sp(1) False
        by (simp add: cg_env_set_mask_def m bitmap_and_def Let_def vzctl_err_def)
      moreover have "trace (snd (vzctl_err (VZCTL_E_CPUMASK H) (errno s3)
                    (''Unable to set '' @ take 63 (''cpuset.'' @ name)) s3)) = trace s3"
        by (simp add: vzctl_err_def logger_def)
      ultimately show ?thesis
        using sp(2) False w2 nz
        by (intro exI [of _ "VZCTL_E_CPUMASK H"]
              exI [of _ "snd (vzctl_err (VZCTL_E_CPUMASK H) (errno s3)
                    (''Unable to set '' @ take 63 (''cpuset.'' @ name)) s3)"]) auto
    qed
  }
  {
    assume e: "\<not> list_ex (\<lambda>w. w \<noteq> 0) (map2 (AND) cpumask active)"
    have "cg_env_set_mask H env ctid name cpumask sz s
        = (Ret (VZCTL_E_CPUMASK H),
           logger (- 1) 0 (''Unable to set '' @ name @ '' value ''
                                @ bitmap_snprintf H 4096 cpumask
                                @ '', supported range: '' @ buf) s2)"
      using rd mem parse e
      by (simp add: cg_env_set_mask_def m bitmap_and_def Let_def vzctl_err_def)
    then show "\<exists>s'. cg_env_set_mask H env ctid name cpumask sz s = (Ret (VZCTL_E_CPUMASK H), s')
              \<and> writes (trace s') = writes (trace s)
              \<and> logged s' = logged s1
                   @ [(- 1, 0, ''Unable to set '' @ name @ '' value ''
                                @ bitmap_snprintf H 4096 cpumask
                                @ '', supported range: '' @ buf)]"
      using w2 l2 by (simp add: logger_def)
  }
qed

theorem cg_env_set_mask_intersection_witness:
  "(\<exists>s'. cg_env_set_cpumask H0 env_cpuset ''101'' [7] 8 s0 = (Ret 0, s')
        \<and> writes (trace s') = [''1-2''])
   \<and> (\<exists>s'. cg_env_set_cpumask H0 env_cpuset ''101'' [32] 8 s0 = (Ret 135, s')
        \<and> writes (trace s') = []
        \<and> last (logged s') = (- 1, 0, ''Unable to set cpus value 5, supported range: 1-3''))"
proof -
  define s1 where "s1 = snd (cg_get_param H0 env_cpuset (Some []) CG_CPUSET
                               (take 63 (''cpuset.'' @ ''cpus'')) 4096 s0)"
  have rd: "cg_get_param H0 env_cpuset (Some []) CG_CPUSET (take 63 (''cpuset.'' @ ''cpus'')) 4096 s0
      = (Ret (0, ''1-3''), s1)"
    using env_cpuset_read by (simp add: s1_def prod_eq_iff)
  have mem: "0 \<le> r_ret (env_cpuset (trace s1) (Malloc 8))"
    by (simp add: env_cpuset_def ok_def)
  have parse: "vzctl2_bitmap_parse H0 ''1-3'' 8 = Some [14]"
    by (simp add: H0_def)
  have nz: "VZCTL_E_CPUMASK H0 \<noteq> 0"
    by (simp add: H0_def)
  have w0: "writes (trace s0) = []"
    by (simp add: s0_def writes_def List.map_filter_def)
  note t = cg_env_set_mask_intersection [OF rd mem parse nz]
  have i7: "map2 (AND) [7] [14 :: 64 word] = [6]" by simp
  have i32: "map2 (AND) [32] [14 :: 64 word] = [0]" by simp
  from t [of "[7]" "''101''", THEN conjunct1] env_cpuset_set w0
  have a: "\<exists>s'. cg_env_set_cpumask H0 env_cpuset ''101'' [7] 8 s0 = (Ret 0, s')
        \<and> writes (trace s') = [''1-2'']"
    by (auto simp: i7 cg_env_set_cpumask_def H0_def)
  from t [of "[32]" "''101''", THEN conjunct2] w0
  have b: "\<exists>s'. cg_env_set_cpumask H0 env_cpuset ''101'' [32] 8 s0 = (Ret 135, s')
        \<and> writes (trace s') = []
        \<and> last (logged s') = (- 1, 0, ''Unable to set cpus value 5, supported range: 1-3'')"
    by (auto simp: i32 cg_env_set_cpumask_def H0_def)
  from a b show ?thesis by blast
qed

text \<open>
  The read is tested with \<open>< 0\<close>.  Where the cpuset hierarchy is not mounted,
  \<open>cg_get_param\<close> returns 1 and has not written \<open>buf\<close>, which is then parsed.
\<close>

lemma cg_env_set_mask_unmounted:
  "fst (cg_env_set_cpumask H0 (env_freezer None) ''101'' [7] 8 s0) = UB Uninitialised"
  by (simp add: cg_env_set_cpumask_def cg_env_set_mask_def
        param_defs ctl_defs sys_def env_freezer_def freezer_mounts_def ok_def failing_def
        vzctl_err_def logger_def s0_def H0_def Let_def upt_rec PATH_MAX_def ENOENT_def)

subsection \<open>The CPU rate limit\<close>

lemma pow2_powi: "pow2 e = power_int 2 e"
  by (simp add: pow2_def power_int_def power_one_over inverse_eq_divide)

lemma pow2_pos: "0 < pow2 e"
  by (simp add: pow2_powi)

lemma round_even_err: "\<bar>of_int (round_even q) - q\<bar> \<le> 1 / 2"
proof -
  have "of_int \<lfloor>q\<rfloor> \<le> q" "q < of_int \<lfloor>q\<rfloor> + 1"
    by linarith+
  then show ?thesis
    by (auto simp: round_even_def Let_def abs_le_iff)
qed

lemma round_even_int: "round_even (of_int m) = m"
  by (simp add: round_even_def)

lemma ilog2_le:
  assumes "0 < x"
  shows "pow2 (ilog2 x) \<le> x"
proof -
  obtain p q where pq: "quotient_of x = (p, q)" by (metis surj_pair)
  then have q: "0 < q" and x: "x = of_int p / of_int q"
    using quotient_of_denom_pos quotient_of_div by blast+
  with assms have p: "0 < p"
    by (simp add: zero_less_divide_iff)
  define fp where "fp = floorlog 2 (nat p)"
  define fq where "fq = floorlog 2 (nat q)"
  have bp: "2 ^ (fp - 1) \<le> nat p" and fp1: "1 \<le> fp"
    using floorlog_bounds [of "nat p" 2] p floorlog_eq_zero_iff [of 2 "nat p"]
    by (simp_all add: fp_def Suc_le_eq)
  have bq: "nat q < 2 ^ fq"
    using floorlog_bounds [of "nat q" 2] q by (simp add: fq_def)
  show ?thesis
  proof (cases "pow2 (int fp - int fq) \<le> x")
    case True
    then show ?thesis
      by (simp add: ilog2_def pq fp_def fq_def Let_def)
  next
    case False
    then have i: "ilog2 x = int fp - int fq - 1"
      by (simp add: ilog2_def pq fp_def fq_def Let_def)
    have "int fp - int fq - 1 = int (fp - 1) - int fq"
      using fp1 by simp
    then have "pow2 (int fp - int fq - 1) = power_int 2 (int (fp - 1) - int fq)"
      by (simp only: pow2_powi)
    also have "\<dots> = 2 ^ (fp - 1) / 2 ^ fq"
      by (subst power_int_diff) simp_all
    also have "\<dots> \<le> of_int p / 2 ^ fq"
    proof -
      have "(2::rat) ^ (fp - 1) \<le> of_nat (nat p)"
        using bp by (metis of_nat_le_iff of_nat_numeral of_nat_power)
      then have "(2::rat) ^ (fp - 1) \<le> of_int p"
        using p by simp
      then show ?thesis
        by (simp add: divide_right_mono)
    qed
    also have "\<dots> \<le> of_int p / of_int q"
    proof -
      have "of_nat (nat q) < (2::rat) ^ fq"
        using bq by (metis of_nat_less_iff of_nat_numeral of_nat_power)
      then have "(of_int q :: rat) \<le> 2 ^ fq"
        using q by simp
      with p q show ?thesis
        by (simp add: frac_le)
    qed
    finally have "pow2 (int fp - int fq - 1) \<le> x"
      by (simp only: x)
    then show ?thesis
      by (simp only: i)
  qed
qed

lemma ilog2_less:
  assumes "0 < x" "x < 2 ^ k"
  shows "ilog2 x < int k"
proof (rule ccontr)
  assume "\<not> ilog2 x < int k"
  then have "int k \<le> ilog2 x" by simp
  then have "power_int (2::rat) (int k) \<le> power_int 2 (ilog2 x)"
    by (intro power_int_increasing) simp_all
  with ilog2_le [OF assms(1)] assms(2) show False
    by (simp add: pow2_powi)
qed

lemma f32_err:
  assumes "0 < x"
  shows "\<bar>f32 x - x\<bar> \<le> pow2 (ilog2 x - 23) / 2"
proof -
  define u where "u = pow2 (ilog2 x - 23)"
  have u: "0 < u" by (simp add: u_def pow2_pos)
  have f: "f32 x = of_int (round_even (x / u)) * u"
    using assms by (simp add: f32_def u_def Let_def)
  have "f32 x - x = (of_int (round_even (x / u)) - x / u) * u"
    using u by (simp add: f field_simps)
  then have "\<bar>f32 x - x\<bar> = \<bar>of_int (round_even (x / u)) - x / u\<bar> * u"
    using u by (simp add: abs_mult)
  also have "\<dots> \<le> 1 / 2 * u"
    using round_even_err [of "x / u"] u by (intro mult_right_mono) simp_all
  finally show ?thesis
    by (simp add: u_def)
qed

lemma f32_of_nat:
  assumes "n < 2 ^ 24"
  shows "f32 (of_nat n) = of_nat n"
proof (cases "n = 0")
  case True
  then show ?thesis by (simp add: f32_def)
next
  case False
  define x :: rat where "x = of_nat n"
  have x: "0 < x" "x < 2 ^ 24"
  proof -
    show "0 < x" using False by (simp add: x_def)
    show "x < 2 ^ 24"
      unfolding x_def using assms by (metis of_nat_less_iff of_nat_numeral of_nat_power)
  qed
  define m where "m = nat (23 - ilog2 x)"
  have e: "ilog2 x - 23 = - int m"
    using ilog2_less [OF x] by (simp add: m_def)
  have u: "pow2 (ilog2 x - 23) = 1 / 2 ^ m"
    by (simp add: e pow2_powi power_int_minus inverse_eq_divide)
  have "x / (1 / 2 ^ m) = of_int (int n * 2 ^ m)"
    by (simp add: x_def)
  then have "round_even (x / (1 / 2 ^ m)) = int n * 2 ^ m"
    using round_even_int by metis
  then have "f32 x = of_int (int n * 2 ^ m) * (1 / 2 ^ m)"
    using x(1) by (simp add: f32_def u Let_def)
  then show ?thesis
    by (simp add: x_def)
qed

lemma get_trunc:
  assumes "unat v * 100 < 2 ^ 64" "unat v * 100 div 1024 < 2 ^ 24"
  shows "f32 (of_nat (unat (v * 100 div 1024 :: 64 word))) = of_nat (unat v * 100 div 1024)"
proof -
  have "unat (v * 100) = unat v * 100"
    using assms(1) by (simp add: unat_word_ariths)
  then have "unat (v * 100 div 1024) = unat v * 100 div 1024"
    by (simp add: unat_div)
  with f32_of_nat [OF assms(2)] show ?thesis by simp
qed

lemma ilog2_upper:
  assumes "0 < x"
  shows "x < pow2 (ilog2 x + 1)"
proof -
  obtain p q where pq: "quotient_of x = (p, q)" by (metis surj_pair)
  then have q: "0 < q" and x: "x = of_int p / of_int q"
    using quotient_of_denom_pos quotient_of_div by blast+
  with assms have p: "0 < p"
    by (simp add: zero_less_divide_iff)
  define fp where "fp = floorlog 2 (nat p)"
  define fq where "fq = floorlog 2 (nat q)"
  have bp: "nat p < 2 ^ fp"
    using floorlog_bounds [of "nat p" 2] p by (simp add: fp_def)
  have bq: "2 ^ (fq - 1) \<le> nat q" and fq1: "1 \<le> fq"
    using floorlog_bounds [of "nat q" 2] q floorlog_eq_zero_iff [of 2 "nat q"]
    by (simp_all add: fq_def Suc_le_eq)
  have up: "x < pow2 (int fp - int fq + 1)"
  proof -
    have "int fp - int fq + 1 = int fp - int (fq - 1)"
      using fq1 by simp
    then have "pow2 (int fp - int fq + 1) = power_int 2 (int fp - int (fq - 1))"
      by (simp only: pow2_powi)
    also have "\<dots> = 2 ^ fp / 2 ^ (fq - 1)"
      by (subst power_int_diff) simp_all
    finally have e: "pow2 (int fp - int fq + 1) = 2 ^ fp / 2 ^ (fq - 1)" .
    have "of_nat (nat p) < (2::rat) ^ fp"
      using bp by (metis of_nat_less_iff of_nat_numeral of_nat_power)
    then have a: "of_int p < (2::rat) ^ fp"
      using p by simp
    have "(2::rat) ^ (fq - 1) \<le> of_nat (nat q)"
      using bq by (metis of_nat_le_iff of_nat_numeral of_nat_power)
    then have b: "(2::rat) ^ (fq - 1) \<le> of_int q"
      using q by simp
    have "of_int p / of_int q < (2::rat) ^ fp / of_int q"
      using a q by (simp add: divide_strict_right_mono)
    also have "\<dots> \<le> 2 ^ fp / 2 ^ (fq - 1)"
      using b q by (intro divide_left_mono) (simp_all add: mult_pos_pos)
    finally show ?thesis
      by (simp only: e x)
  qed
  show ?thesis
  proof (cases "pow2 (int fp - int fq) \<le> x")
    case True
    then have "ilog2 x = int fp - int fq"
      by (simp add: ilog2_def pq fp_def fq_def Let_def)
    with up show ?thesis by simp
  next
    case False
    then have "ilog2 x = int fp - int fq - 1"
      by (simp add: ilog2_def pq fp_def fq_def Let_def)
    with False show ?thesis by simp
  qed
qed

lemma ilog2_unique:
  assumes "pow2 e \<le> x" "x < pow2 (e + 1)"
  shows "ilog2 x = e"
proof -
  have x: "0 < x" using assms(1) pow2_pos [of e] by linarith
  have "power_int (2::rat) (ilog2 x) < power_int 2 (e + 1)"
    using ilog2_le [OF x] assms(2) by (simp add: pow2_powi)
  then have a: "ilog2 x < e + 1"
    by (rule_tac ccontr) (use power_int_increasing [of "e + 1" "ilog2 x" "2::rat"] in auto)
  have "power_int (2::rat) e < power_int 2 (ilog2 x + 1)"
    using ilog2_upper [OF x] assms(1) by (simp add: pow2_powi)
  then have b: "e < ilog2 x + 1"
    by (rule_tac ccontr) (use power_int_increasing [of "ilog2 x + 1" e "2::rat"] in auto)
  from a b show ?thesis by simp
qed

lemma f32_quot: "f32 (26215424 / 25) = 1048617"
proof -
  have "ilog2 (26215424 / 25) = 20"
    by (rule ilog2_unique) (simp_all add: pow2_def)
  moreover have "\<lfloor>209723392 / 25 :: rat\<rfloor> = 8388935"
    by (rule floor_unique) simp_all
  ultimately show ?thesis
    by (simp add: f32_def pow2_def round_even_def Let_def)
qed

lemma f32_scaled:
  assumes "p < 2 ^ 24"
  shows "f32 (of_nat p * 1024) = of_nat p * 1024"
proof (cases "p = 0")
  case True
  then show ?thesis by (simp add: f32_def)
next
  case False
  define x :: rat where "x = of_nat p * 1024"
  have "p < 16777216"
    using assms by simp
  then have "(of_nat p :: rat) < 16777216"
    by linarith
  then have x: "0 < x" "x < 2 ^ 34"
    using False by (simp_all add: x_def)
  show ?thesis
  proof (cases "ilog2 x \<le> 23")
    case True
    define m where "m = nat (23 - ilog2 x)"
    have e: "ilog2 x - 23 = - int m"
      using True by (simp add: m_def)
    have u: "pow2 (ilog2 x - 23) = 1 / 2 ^ m"
      by (simp add: e pow2_powi power_int_minus inverse_eq_divide)
    have "x / (1 / 2 ^ m) = of_int (int p * 1024 * 2 ^ m)"
      by (simp add: x_def)
    then have "round_even (x / (1 / 2 ^ m)) = int p * 1024 * 2 ^ m"
      using round_even_int by metis
    then have "f32 x = of_int (int p * 1024 * 2 ^ m) * (1 / 2 ^ m)"
      using x(1) by (simp add: f32_def u Let_def)
    then show ?thesis
      by (simp add: x_def)
  next
    case False
    define j where "j = nat (ilog2 x - 23)"
    have j: "ilog2 x - 23 = int j" "j \<le> 10"
      using False ilog2_less [OF x] by (simp_all add: j_def)
    have u: "pow2 (ilog2 x - 23) = 2 ^ j"
      by (simp add: j(1) pow2_powi)
    have k: "(1024 :: rat) = 2 ^ (10 - j) * 2 ^ j"
      using j(2) by (simp add: power_add [symmetric])
    have "x = (of_nat p * 2 ^ (10 - j)) * 2 ^ j"
      by (simp only: x_def k mult.assoc)
    then have "x / 2 ^ j = of_nat p * 2 ^ (10 - j)"
      by simp
    then have "x / 2 ^ j = of_int (int p * 2 ^ (10 - j))"
      by simp
    then have "round_even (x / 2 ^ j) = int p * 2 ^ (10 - j)"
      using round_even_int by metis
    then have "f32 x = of_int (int p * 2 ^ (10 - j)) * 2 ^ j"
      using x(1) by (simp add: f32_def u Let_def)
    also have "\<dots> = of_nat p * (2 ^ (10 - j) * 2 ^ j)"
      by simp
    also have "\<dots> = of_nat p * 1024"
      using j(2) by (simp add: power_add [symmetric])
    finally show ?thesis
      by (simp add: x_def)
  qed
qed

lemma set_trunc_wide:
  assumes "p < 102400"
  shows "float_to_ulong (f32 (f32 (of_nat p * 1024) / 100)) = Ret (of_nat (p * 1024 div 100))"
proof -
  define n where "n = p * 1024"
  define q where "q = n div 100"
  define r where "r = n mod 100"
  define y :: rat where "y = of_nat n / 100"
  have n: "n < 104857600" using assms by (simp add: n_def)
  have a: "f32 (of_nat p * 1024) = of_nat n"
    using f32_scaled [of p] assms by (simp add: n_def)
  have nqr: "n = 100 * q + r" by (simp add: q_def r_def)
  have yq: "y = of_nat q + of_nat r / 100"
    by (simp add: y_def nqr)
  have q: "q < 1048576" using n by (simp add: q_def)
  have r4: "r mod 4 = 0"
  proof -
    have "r mod 4 = n mod 4"
      unfolding r_def by (rule mod_mod_cancel) simp
    then show ?thesis by (simp add: n_def)
  qed
  have r100: "r < 100" by (simp add: r_def)
  have fl: "of_int (int q) \<le> f32 y \<and> f32 y < of_int (int q) + 1"
  proof (cases "r = 0")
    case True
    then have "y = of_nat q" by (simp add: yq)
    with f32_of_nat [of q] q show ?thesis by simp
  next
    case False
    with r4 r100 have rb: "4 \<le> r" "r \<le> 96" by presburger+
    have y0: "0 < y" using False by (simp add: yq add_nonneg_pos)
    have "(of_nat n :: rat) < 104857600"
      using n by linarith
    then have "y * 100 < 104857600"
      by (simp add: y_def)
    then have "y < 1048576"
      by linarith
    then have y20: "y < 2 ^ 20"
      by simp
    have "ilog2 y - 23 \<le> - 4"
      using ilog2_less [OF y0 y20] by simp
    then have "power_int (2::rat) (ilog2 y - 23) \<le> power_int 2 (- 4)"
      by (intro power_int_increasing) simp_all
    then have u: "pow2 (ilog2 y - 23) \<le> 1 / 16"
      by (simp add: pow2_powi power_int_minus)
    from f32_err [OF y0] u have e: "\<bar>f32 y - y\<bar> \<le> 1 / 32"
      by simp
    have "(4::rat) \<le> of_nat r" "of_nat r \<le> (96::rat)"
      using rb by linarith+
    then have "of_nat q + 4 / 100 \<le> y" "y \<le> of_nat q + 96 / 100"
      by (simp_all add: yq)
    with e show ?thesis
      unfolding of_int_of_nat_eq by linarith
  qed
  then have f: "\<lfloor>f32 y\<rfloor> = int q"
    by (intro floor_unique) simp_all
  have "(of_nat q :: rat) < 1048576"
    using q by linarith
  with fl have "f32 y < 2 ^ 64" "0 \<le> f32 y"
    by simp_all
  then have "float_to_ulong (f32 y) = Ret (word_of_int (int q))"
    by (simp add: float_to_ulong_def f)
  then show ?thesis
    by (simp add: a y_def q_def n_def)
qed

lemma f32_big: "f32 104861696 = 104861696"
  using f32_scaled [of 102404] by simp

lemma set_102404: "float_to_ulong (f32 (f32 (102404 * 1024) / 100)) = Ret 1048617"
  by (simp add: f32_big f32_quot float_to_ulong_def)

lemma write_1048617:
  "writes (trace (snd (cg_set_ul H0 env_rate (Some ''101'') CG_CPU ''cpu.rate'' 1048617 s0)))
     = [''1048617'']"
  by (simp add: cg_set_ul_def param_defs ctl_defs sys_def env_rate_def host_mounts_def ok_def
        failing_def writes_def List.map_filter_def
        vzctl_err_def logger_def s0_def H0_def Let_def upt_rec PATH_MAX_def ENOENT_def)

lemma env_rate_50:
  "fst (cg_set_param H0 env_rate (Some ''101'') CG_CPU ''cpu.rate'' ''512'' s0) = Ret 0
   \<and> writes (trace (snd (cg_set_param H0 env_rate (Some ''101'') CG_CPU ''cpu.rate'' ''512'' s0)))
       = [''512'']
   \<and> fst (cg_get_param H0 env_rate (Some ''101'') CG_CPU ''cpu.rate'' 32
            (snd (cg_set_param H0 env_rate (Some ''101'') CG_CPU ''cpu.rate'' ''512'' s0)))
       = Ret (0, ''512'')"
  by (simp add: param_defs ctl_defs sys_def env_rate_def host_mounts_def ok_def failing_def
        writes_def List.map_filter_def
        vzctl_err_def logger_def s0_def H0_def Let_def upt_rec PATH_MAX_def ENOENT_def)

lemma env_rate_12:
  "fst (cg_set_ul H0 env_rate (Some ''101'') CG_CPU ''cpu.rate'' 122 s0) = Ret 0
   \<and> writes (trace (snd (cg_set_ul H0 env_rate (Some ''101'') CG_CPU ''cpu.rate'' 122 s0)))
       = [''122'']
   \<and> fst (cg_get_ul H0 env_rate (Some ''101'') CG_CPU ''cpu.rate''
            (snd (cg_set_ul H0 env_rate (Some ''101'') CG_CPU ''cpu.rate'' 122 s0)))
       = Ret (0, 122)"
  by (simp add: cg_set_ul_def cg_get_ul_def parse_ul_def is_digit_def digit_val_def
        param_defs ctl_defs sys_def env_rate_def host_mounts_def ok_def failing_def
        writes_def List.map_filter_def
        vzctl_err_def logger_def s0_def H0_def Let_def upt_rec PATH_MAX_def ENOENT_def)

text \<open>
  Claim C5 as stated fails: the product and the quotient are single-precision
  operations, and their rounding can carry the quotient over the next integer before
  the conversion discards the fraction.  For the limit 102404 the quotient
  \<open>1048616.96\<close> rounds to \<open>1048617\<close>, which is what is written; the integer quotient
  rounded down is \<open>1048616\<close>.
\<close>

theorem cg_env_set_cpulimit_rounds_up:
  "cg_env_set_cpulimit H0 env_rate ''101'' 102404 s0
     = cg_set_ul H0 env_rate (Some ''101'') CG_CPU ''cpu.rate'' 1048617 s0
   \<and> writes (trace (snd (cg_env_set_cpulimit H0 env_rate ''101'' 102404 s0))) = [''1048617'']
   \<and> (102404 * 1024 div 100 :: nat) = 1048616"
  using set_102404 write_1048617 by (simp add: cg_env_set_cpulimit_def)

text \<open>
  Claim C5 as amended.  Setting the limit 50 hands the text \<open>512\<close> to the write of
  \<open>cpu.rate\<close>, and a \<open>cpu.rate\<close> that reads \<open>512\<close> gives the limit 50.  For every whole
  percentage \<open>p\<close> below 102400 the stored value is \<open>p * 1024 div 100\<close>: the
  single-precision product and quotient, then the conversion, come to the integer
  quotient rounded down.  The limit for a stored value \<open>v\<close> is \<open>v * 100 div 1024\<close>,
  computed in \<open>unsigned long\<close>, as long as the product does not wrap and the quotient is
  below \<open>2^24\<close> (above which a \<open>float\<close> no longer holds every integer).
\<close>

theorem cg_env_cpulimit_truncates:
  "cg_env_set_cpulimit H env ctid 50 s
      = cg_set_param H env (Some ctid) CG_CPU ''cpu.rate'' ''512'' s
   \<and> (cg_get_param H env (Some ctid) CG_CPU ''cpu.rate'' 32 s = (Ret (0, ''512''), s1)
        \<longrightarrow> cg_env_get_cpulimit H env ctid s = (Ret (0, 50), s1))
   \<and> (\<forall>p<102400. cg_env_set_cpulimit H env ctid (of_nat p) s
        = cg_set_ul H env (Some ctid) CG_CPU ''cpu.rate'' (of_nat (p * 1024 div 100)) s)
   \<and> (\<forall>v. cg_get_ul H env (Some ctid) CG_CPU ''cpu.rate'' s = (Ret (0, v), s1)
           \<and> unat v * 100 < 2 ^ 64 \<and> unat v * 100 div 1024 < 2 ^ 24
        \<longrightarrow> cg_env_get_cpulimit H env ctid s = (Ret (0, of_nat (unat v * 100 div 1024)), s1))"
proof (intro conjI allI impI)
  have "float_to_ulong (f32 (f32 (50 * 1024) / 100)) = Ret 512"
    using set_trunc_wide [of 50] by simp
  then show "cg_env_set_cpulimit H env ctid 50 s
      = cg_set_param H env (Some ctid) CG_CPU ''cpu.rate'' ''512'' s"
    by (simp add: cg_env_set_cpulimit_def cg_set_ul_def)
next
  assume "cg_get_param H env (Some ctid) CG_CPU ''cpu.rate'' 32 s = (Ret (0, ''512''), s1)"
  then have "cg_get_ul H env (Some ctid) CG_CPU ''cpu.rate'' s = (Ret (0, 512), s1)"
    by (simp add: cg_get_ul_def parse_ul_def is_digit_def digit_val_def)
  moreover have "f32 (of_nat (unat (512 * 100 div 1024 :: 64 word))) = 50"
    using get_trunc [of 512] by simp
  ultimately show "cg_env_get_cpulimit H env ctid s = (Ret (0, 50), s1)"
    by (simp add: cg_env_get_cpulimit_def)
next
  fix p :: nat
  assume "p < 102400"
  from set_trunc_wide [OF this]
  show "cg_env_set_cpulimit H env ctid (of_nat p) s
        = cg_set_ul H env (Some ctid) CG_CPU ''cpu.rate'' (of_nat (p * 1024 div 100)) s"
    by (simp add: cg_env_set_cpulimit_def)
next
  fix v
  assume a: "cg_get_ul H env (Some ctid) CG_CPU ''cpu.rate'' s = (Ret (0, v), s1)
           \<and> unat v * 100 < 2 ^ 64 \<and> unat v * 100 div 1024 < 2 ^ 24"
  then have "f32 (of_nat (unat (v * 100 div 1024))) = of_nat (unat v * 100 div 1024)"
    by (intro get_trunc) simp_all
  with a show "cg_env_get_cpulimit H env ctid s = (Ret (0, of_nat (unat v * 100 div 1024)), s1)"
    by (simp add: cg_env_get_cpulimit_def)
qed

theorem cg_env_cpulimit_truncates_witness:
  "(\<exists>s1 s2. cg_env_set_cpulimit H0 env_rate ''101'' 50 s0 = (Ret 0, s1)
        \<and> writes (trace s1) = [''512'']
        \<and> cg_env_get_cpulimit H0 env_rate ''101'' s1 = (Ret (0, 50), s2))
   \<and> (\<exists>s1 s2. cg_env_set_cpulimit H0 env_rate ''101'' 12 s0 = (Ret 0, s1)
        \<and> writes (trace s1) = [''122'']
        \<and> cg_env_get_cpulimit H0 env_rate ''101'' s1 = (Ret (0, 11), s2))"
proof (intro conjI)
  define A where "A = cg_set_param H0 env_rate (Some ''101'') CG_CPU ''cpu.rate'' ''512'' s0"
  define G where "G = cg_get_param H0 env_rate (Some ''101'') CG_CPU ''cpu.rate'' 32 (snd A)"
  have a: "A = (Ret 0, snd A)" "writes (trace (snd A)) = [''512'']" "G = (Ret (0, ''512''), snd G)"
    using env_rate_50 by (simp_all add: A_def G_def prod_eq_iff)
  have "cg_env_set_cpulimit H0 env_rate ''101'' 50 s0 = A"
    using cg_env_cpulimit_truncates [of H0 env_rate "''101''" s0] by (simp add: A_def)
  moreover have "cg_env_get_cpulimit H0 env_rate ''101'' (snd A) = (Ret (0, 50), snd G)"
    using cg_env_cpulimit_truncates [of H0 env_rate "''101''" "snd A" "snd G"] a(3)
    by (simp add: G_def)
  ultimately show "\<exists>s1 s2. cg_env_set_cpulimit H0 env_rate ''101'' 50 s0 = (Ret 0, s1)
        \<and> writes (trace s1) = [''512'']
        \<and> cg_env_get_cpulimit H0 env_rate ''101'' s1 = (Ret (0, 50), s2)"
    using a(1,2) by metis
next
  define B where "B = cg_set_ul H0 env_rate (Some ''101'') CG_CPU ''cpu.rate'' 122 s0"
  define G where "G = cg_get_ul H0 env_rate (Some ''101'') CG_CPU ''cpu.rate'' (snd B)"
  have b: "B = (Ret 0, snd B)" "writes (trace (snd B)) = [''122'']" "G = (Ret (0, 122), snd G)"
    using env_rate_12 by (simp_all add: B_def G_def prod_eq_iff)
  have "cg_env_set_cpulimit H0 env_rate ''101'' (of_nat 12) s0 = B"
    using cg_env_cpulimit_truncates [of H0 env_rate "''101''" s0, THEN conjunct2, THEN conjunct2,
        THEN conjunct1, THEN spec, of 12]
    by (simp add: B_def)
  then have s: "cg_env_set_cpulimit H0 env_rate ''101'' 12 s0 = B"
    by simp
  have "cg_env_get_cpulimit H0 env_rate ''101'' (snd B)
      = (Ret (0, of_nat (unat (122 :: 64 word) * 100 div 1024)), snd G)"
    using cg_env_cpulimit_truncates [of H0 env_rate "''101''" "snd B" "snd G", THEN conjunct2,
        THEN conjunct2, THEN conjunct2, THEN spec, of 122] b(3)
    by (simp add: G_def)
  then have g: "cg_env_get_cpulimit H0 env_rate ''101'' (snd B) = (Ret (0, 11), snd G)"
    by simp
  from s g b(1,2) show "\<exists>s1 s2. cg_env_set_cpulimit H0 env_rate ''101'' 12 s0 = (Ret 0, s1)
        \<and> writes (trace s1) = [''122'']
        \<and> cg_env_get_cpulimit H0 env_rate ''101'' s1 = (Ret (0, 11), s2)"
    by metis
qed

end
